theory Spec2Isabelle
  imports Complex_Main "HOL-Library.Monad_Syntax"
begin

section \<open>Data model (types.ts)\<close>

text \<open>
  A \<^verbatim>\<open>Candle\<close> is one OHLCV bar. The TypeScript fields are of type \<^verbatim>\<open>number\<close>;
  the bars handed to the engine hold finite values, modelled as reals (the timestamp as
  an integer). Rounding and overflow of IEEE doubles are not modelled: arithmetic on
  finite values is exact real arithmetic.
\<close>

record Candle =
  time :: int
  "open" :: real
  high :: real
  low :: real
  close :: real
  volume :: real

datatype SignalType =
    HAMMER | SHOOTING_STAR | BULLISH_ENGULFING | BEARISH_ENGULFING | DOJI
  | DOUBLE_BOTTOM | DOUBLE_TOP | HEAD_AND_SHOULDERS | INVERSE_H_AND_S
  | FAST_REBOUND_BOTTOM | FAST_REJECTION_TOP | BULLISH_INSIDE_BAR | BEARISH_INSIDE_BAR
  | MORNING_STAR | EVENING_STAR | BULLISH_SPINNING_TOP | BEARISH_SPINNING_TOP
  | BOLLINGER_UPPER_REJECTION | BOLLINGER_LOWER_REJECTION
  | INSTITUTIONAL_SPRING | INSTITUTIONAL_UPTHRUST
  | SUDDEN_REVERSAL_UP | SUDDEN_REVERSAL_DOWN
  | TWEEZERS_TOP | TWEEZERS_BOTTOM | NONE

section \<open>JavaScript numbers with their special values\<close>

text \<open>
  A division whose denominator is zero does not fail in JavaScript: it yields
  \<^verbatim>\<open>Infinity\<close>, \<^verbatim>\<open>-Infinity\<close> or \<^verbatim>\<open>NaN\<close>, and so does
  \<^verbatim>\<open>Math.min\<close>/\<^verbatim>\<open>Math.max\<close> of no arguments. Every quantity of the engine
  that can take such a value is a \<open>jsnum\<close>. A zero is the positive zero (the reals have
  one zero only).
\<close>

datatype jsnum = Fin real | PInf | NInf | NaN

fun jneg :: "jsnum \<Rightarrow> jsnum" where
  "jneg (Fin a) = Fin (- a)"
| "jneg PInf = NInf"
| "jneg NInf = PInf"
| "jneg NaN = NaN"

fun jadd :: "jsnum \<Rightarrow> jsnum \<Rightarrow> jsnum" where
  "jadd (Fin a) (Fin b) = Fin (a + b)"
| "jadd NaN y = NaN"
| "jadd x NaN = NaN"
| "jadd PInf NInf = NaN"
| "jadd NInf PInf = NaN"
| "jadd PInf y = PInf"
| "jadd x PInf = PInf"
| "jadd NInf y = NInf"
| "jadd x NInf = NInf"

definition jsub :: "jsnum \<Rightarrow> jsnum \<Rightarrow> jsnum" where
  "jsub x y = jadd x (jneg y)"

fun jmul :: "jsnum \<Rightarrow> jsnum \<Rightarrow> jsnum" where
  "jmul (Fin a) (Fin b) = Fin (a * b)"
| "jmul NaN y = NaN"
| "jmul x NaN = NaN"
| "jmul (Fin a) PInf = (if a > 0 then PInf else if a < 0 then NInf else NaN)"
| "jmul (Fin a) NInf = (if a > 0 then NInf else if a < 0 then PInf else NaN)"
| "jmul PInf (Fin b) = (if b > 0 then PInf else if b < 0 then NInf else NaN)"
| "jmul NInf (Fin b) = (if b > 0 then NInf else if b < 0 then PInf else NaN)"
| "jmul PInf PInf = PInf"
| "jmul NInf NInf = PInf"
| "jmul PInf NInf = NInf"
| "jmul NInf PInf = NInf"

fun jdiv :: "jsnum \<Rightarrow> jsnum \<Rightarrow> jsnum" where
  "jdiv (Fin a) (Fin b) =
     (if b \<noteq> 0 then Fin (a / b)
      else if a > 0 then PInf else if a < 0 then NInf else NaN)"
| "jdiv NaN y = NaN"
| "jdiv x NaN = NaN"
| "jdiv (Fin a) PInf = Fin 0"
| "jdiv (Fin a) NInf = Fin 0"
| "jdiv PInf (Fin b) = (if b \<ge> 0 then PInf else NInf)"
| "jdiv NInf (Fin b) = (if b \<ge> 0 then NInf else PInf)"
| "jdiv PInf PInf = NaN"
| "jdiv PInf NInf = NaN"
| "jdiv NInf PInf = NaN"
| "jdiv NInf NInf = NaN"

text \<open>The comparisons \<^verbatim>\<open><\<close>, \<^verbatim>\<open><=\<close> and \<^verbatim>\<open>===\<close>: false as soon as one side is NaN.\<close>

fun jlt :: "jsnum \<Rightarrow> jsnum \<Rightarrow> bool" where
  "jlt (Fin a) (Fin b) = (a < b)"
| "jlt NaN y = False"
| "jlt x NaN = False"
| "jlt PInf y = False"
| "jlt x NInf = False"
| "jlt (Fin a) PInf = True"
| "jlt NInf (Fin b) = True"
| "jlt NInf PInf = True"

fun jle :: "jsnum \<Rightarrow> jsnum \<Rightarrow> bool" where
  "jle (Fin a) (Fin b) = (a \<le> b)"
| "jle NaN y = False"
| "jle x NaN = False"
| "jle NInf y = True"
| "jle x PInf = True"
| "jle PInf y = False"
| "jle x NInf = False"

definition jgt :: "jsnum \<Rightarrow> jsnum \<Rightarrow> bool" where
  "jgt x y = jlt y x"

definition jge :: "jsnum \<Rightarrow> jsnum \<Rightarrow> bool" where
  "jge x y = jle y x"

definition jeq :: "jsnum \<Rightarrow> jsnum \<Rightarrow> bool" where
  "jeq x y = (x \<noteq> NaN \<and> x = y)"

text \<open>\<^verbatim>\<open>Math.min(a, b)\<close> of two arguments.\<close>

fun jmin :: "jsnum \<Rightarrow> jsnum \<Rightarrow> jsnum" where
  "jmin (Fin a) (Fin b) = Fin (min a b)"
| "jmin NaN y = NaN"
| "jmin x NaN = NaN"
| "jmin NInf y = NInf"
| "jmin x NInf = NInf"
| "jmin PInf y = y"
| "jmin x PInf = x"

text \<open>\<^verbatim>\<open>Math.min(...xs)\<close> and \<^verbatim>\<open>Math.max(...xs)\<close> of a spread array of finite numbers.\<close>

fun Math_min :: "real list \<Rightarrow> jsnum" where
  "Math_min [] = PInf"
| "Math_min (x # xs) = Fin (fold min xs x)"

fun Math_max :: "real list \<Rightarrow> jsnum" where
  "Math_max [] = NInf"
| "Math_max (x # xs) = Fin (fold max xs x)"

section \<open>Arrays\<close>

text \<open>
  \<^verbatim>\<open>candles[i].f\<close>: reading a property of \<^verbatim>\<open>undefined\<close> (an index outside the array)
  raises a TypeError. A computation that can raise returns an option, with \<open>None\<close>
  for the TypeError. Indices are integers.
\<close>

definition candle_at :: "Candle list \<Rightarrow> int \<Rightarrow> Candle option" where
  "candle_at candles i =
     (if 0 \<le> i \<and> i < int (length candles) then Some (candles ! nat i) else None)"

text \<open>\<^verbatim>\<open>xs[i]\<close> used as an operand: \<^verbatim>\<open>undefined\<close> behaves as NaN in arithmetic.\<close>

definition num_at :: "real list \<Rightarrow> int \<Rightarrow> jsnum" where
  "num_at xs i = (if 0 \<le> i \<and> i < int (length xs) then Fin (xs ! nat i) else NaN)"

text \<open>
  \<^verbatim>\<open>Array.prototype.slice(start, end)\<close>: a negative bound counts from the end, both
  bounds are clamped to the array, and it never raises.
\<close>

definition slice :: "'a list \<Rightarrow> int \<Rightarrow> int \<Rightarrow> 'a list" where
  "slice xs start end =
     (let len = int (length xs);
          k = (if start < 0 then max (len + start) 0 else min start len);
          final = (if end < 0 then max (len + end) 0 else min end len)
      in take (nat (final - k)) (drop (nat k) xs))"

section \<open>Constants (strategyService.ts)\<close>

abbreviation RECENT_LOOKBACK :: int where "RECENT_LOOKBACK \<equiv> 50"
abbreviation RSI_PERIOD :: int where "RSI_PERIOD \<equiv> 14"
abbreviation STOCH_PERIOD :: int where "STOCH_PERIOD \<equiv> 14"
abbreviation BB_PERIOD :: int where "BB_PERIOD \<equiv> 20"
abbreviation BB_STD_DEV :: real where "BB_STD_DEV \<equiv> 2.0"
abbreviation PINBA_WICK_PERCENT :: real where "PINBA_WICK_PERCENT \<equiv> 0.5"
abbreviation ULTRA_WICK_RATIO :: real where "ULTRA_WICK_RATIO \<equiv> 3.0"
abbreviation CLIMATIC_VOLUME_MULT :: real where "CLIMATIC_VOLUME_MULT \<equiv> 3"
abbreviation REVERSAL_VOLUME_MULT :: real where "REVERSAL_VOLUME_MULT \<equiv> 2"
abbreviation DOJI_BODY_THRESHOLD :: real where "DOJI_BODY_THRESHOLD \<equiv> 0.05"
abbreviation TWEEZER_TOLERANCE :: real where "TWEEZER_TOLERANCE \<equiv> 0.0001"

section \<open>Indicators\<close>

subsection \<open>calculateRSIValue\<close>

text \<open>
  The loop \<^verbatim>\<open>for (i = index - RSI_PERIOD + 1; i <= index; i++)\<close> runs over the indices
  it is given, carrying \<open>(gains, losses)\<close>.
\<close>

fun rsi_loop :: "Candle list \<Rightarrow> int list \<Rightarrow> real \<times> real \<Rightarrow> (real \<times> real) option" where
  "rsi_loop candles [] (gains, losses) = Some (gains, losses)"
| "rsi_loop candles (i # is) (gains, losses) =
     do {
       ci \<leftarrow> candle_at candles i;
       cp \<leftarrow> candle_at candles (i - 1);
       let change = close ci - close cp;
       if change \<ge> 0 then rsi_loop candles is (gains + change, losses)
       else rsi_loop candles is (gains, losses - change)
     }"

text \<open>
  The two divisions are real divisions: \<open>losses\<close> is not zero on that branch, and
  \<open>1 + rs\<close> is at least 1 (lemma \<open>rsi_loop_nonneg\<close> below).
\<close>

definition calculateRSIValue :: "Candle list \<Rightarrow> int \<Rightarrow> real option" where
  "calculateRSIValue candles index =
     (if index < RSI_PERIOD then Some 50
      else do {
        (gains, losses) \<leftarrow> rsi_loop candles [index - RSI_PERIOD + 1 .. index] (0, 0);
        if losses = 0 then Some 100
        else let rs = (gains / real_of_int RSI_PERIOD) / (losses / real_of_int RSI_PERIOD)
             in Some (100 - (100 / (1 + rs)))
      })"

subsection \<open>calculateStochRSI\<close>

text \<open>The loop pushing \<open>calculateRSIValue candles i\<close> onto \<open>rsiValues\<close>.\<close>

fun rsi_values :: "Candle list \<Rightarrow> int list \<Rightarrow> real list option" where
  "rsi_values candles [] = Some []"
| "rsi_values candles (i # is) =
     do {
       r \<leftarrow> calculateRSIValue candles i;
       rs \<leftarrow> rsi_values candles is;
       Some (r # rs)
     }"

definition calculateStochRSI :: "Candle list \<Rightarrow> int \<Rightarrow> jsnum option" where
  "calculateStochRSI candles index =
     (if index < RSI_PERIOD + STOCH_PERIOD then Some (Fin 50)
      else do {
        rsiValues \<leftarrow> rsi_values candles [index - STOCH_PERIOD + 1 .. index];
        let currentRsi = num_at rsiValues (int (length rsiValues) - 1);
            minRsi = Math_min rsiValues;
            maxRsi = Math_max rsiValues
        in if jeq maxRsi minRsi then Some (Fin 0)
           else Some (jmul (jdiv (jsub currentRsi minRsi) (jsub maxRsi minRsi)) (Fin 100))
      })"

subsection \<open>calculateBollingerBands\<close>

record Bands =
  middle :: real
  upper :: real
  lower :: real

text \<open>The result is \<^verbatim>\<open>null\<close> (here \<open>None\<close>) or the three bands; nothing in it can raise.\<close>

definition calculateBollingerBands :: "Candle list \<Rightarrow> int \<Rightarrow> Bands option" where
  "calculateBollingerBands candles index =
     (if index < BB_PERIOD then None
      else let sl = slice candles (index - BB_PERIOD + 1) (index + 1);
               sma = foldl (\<lambda>sum c. sum + close c) 0 sl / real_of_int BB_PERIOD;
               variance = foldl (\<lambda>sum c. sum + (close c - sma)\<^sup>2) 0 sl / real_of_int BB_PERIOD;
               stdDev = sqrt variance
           in Some \<lparr> middle = sma,
                     upper = sma + (BB_STD_DEV * stdDev),
                     lower = sma - (BB_STD_DEV * stdDev) \<rparr>)"

section \<open>Pattern matcher: detectSignal\<close>

record DetectResult =
  type :: SignalType
  stochRsi :: jsnum
  score :: jsnum

text \<open>
  Lines 72 to 170 of the source: the degenerate-bar return and the cascade of rules, on
  the four bars, the two indicator values and the 50-bar window read before. An inner
  \<^verbatim>\<open>if\<close> without \<^verbatim>\<open>else\<close> falls through to the next rule, so a rule returns
  exactly when its outer and inner conditions both hold. \<open>lowerWick / body\<close>,
  \<open>upperWick / body\<close> and \<open>body / rng\<close> are real divisions: \<open>body\<close> is at
  least 0.0001 and \<open>rng\<close> is not zero after the first return. (\<open>cur\<close>,
  \<open>rng\<close> and \<open>stoch\<close> are the source's \<^verbatim>\<open>curr\<close>, \<^verbatim>\<open>range\<close> and
  \<^verbatim>\<open>stochRsi\<close>, names that are taken here.)
\<close>

definition detect_rules ::
  "Candle \<Rightarrow> Candle \<Rightarrow> Candle \<Rightarrow> Candle \<Rightarrow> jsnum \<Rightarrow> Bands option \<Rightarrow> Candle list \<Rightarrow> DetectResult"
where
  "detect_rules cur prev prev2 next stoch bb recentSlices =
    (let rng = high cur - low cur in
     if rng = 0 then \<lparr> type = NONE, stochRsi = stoch, score = Fin 0 \<rparr>
     else
     let body = max 0.0001 \<bar>close cur - open cur\<bar>;
         upperWick = high cur - max (open cur) (close cur);
         lowerWick = min (open cur) (close cur) - low cur;
         avgVol = foldl (\<lambda>sum c. sum + volume c) 0 recentSlices / real_of_int RECENT_LOOKBACK;
         recentLow = Math_min (map low recentSlices);
         recentHigh = Math_max (map high recentSlices);
         volMult = jdiv (Fin (volume cur)) (Fin avgVol);
         highsDiff = jdiv (Fin \<bar>high cur - high prev\<bar>) (Fin (high cur));
         lowsDiff = jdiv (Fin \<bar>low cur - low prev\<bar>) (Fin (low cur));
         prevBody = \<bar>close prev - open prev\<bar>
     in
     if (case bb of None \<Rightarrow> False | Some b \<Rightarrow>
           lowerWick > body * ULTRA_WICK_RATIO \<and> jlt stoch (Fin 20) \<and>
           jgt volMult (Fin CLIMATIC_VOLUME_MULT) \<and> jlt (Fin (low cur)) recentLow \<and>
           low cur < lower b \<and> close next > low cur)
     then
       (let isDeepSweep = jlt (Fin (low cur)) recentLow;
            finalScore =
              jadd (jadd (jadd (Fin 60) (jmin (Fin 20) (jmul (jsub volMult (Fin 2)) (Fin 10))))
                         (Fin (if isDeepSweep then 10 else 0)))
                   (Fin (if jlt stoch (Fin 15) then 10 else 0))
        in \<lparr> type = INSTITUTIONAL_SPRING, stochRsi = stoch, score = jmin (Fin 95) finalScore \<rparr>)
     else if (case bb of None \<Rightarrow> False | Some b \<Rightarrow>
           upperWick > body * ULTRA_WICK_RATIO \<and> jgt stoch (Fin 80) \<and>
           jgt volMult (Fin CLIMATIC_VOLUME_MULT) \<and> jgt (Fin (high cur)) recentHigh \<and>
           high cur > upper b \<and> close next < high cur)
     then
       (let isDeepSweep = jgt (Fin (high cur)) recentHigh;
            finalScore =
              jadd (jadd (jadd (Fin 60) (jmin (Fin 20) (jmul (jsub volMult (Fin 2)) (Fin 10))))
                         (Fin (if isDeepSweep then 10 else 0)))
                   (Fin (if jgt stoch (Fin 85) then 10 else 0))
        in \<lparr> type = INSTITUTIONAL_UPTHRUST, stochRsi = stoch, score = jmin (Fin 95) finalScore \<rparr>)
     else if jlt highsDiff (Fin TWEEZER_TOLERANCE) \<and> close prev > open prev \<and>
             close cur < open cur \<and> jgt stoch (Fin 85) \<and> jge (Fin (high cur)) recentHigh
     then
       (let volBonus = (if volume cur > avgVol * 1.5 then 15 else 0);
            finalScore = 50 + (if jgt stoch (Fin 90) then 15 else 5) + volBonus
                         + (if jlt highsDiff (Fin 0.00005) then 10 else 0)
        in \<lparr> type = TWEEZERS_TOP, stochRsi = stoch, score = Fin finalScore \<rparr>)
     else if jlt lowsDiff (Fin TWEEZER_TOLERANCE) \<and> close prev < open prev \<and>
             close cur > open cur \<and> jlt stoch (Fin 15) \<and> jle (Fin (low cur)) recentLow
     then
       (let volBonus = (if volume cur > avgVol * 1.5 then 15 else 0);
            finalScore = 50 + (if jlt stoch (Fin 10) then 15 else 5) + volBonus
                         + (if jlt lowsDiff (Fin 0.00005) then 10 else 0)
        in \<lparr> type = TWEEZERS_BOTTOM, stochRsi = stoch, score = Fin finalScore \<rparr>)
     else if (close prev < open prev \<and> close prev2 < open prev2 \<and> jlt stoch (Fin 20)) \<and>
             (close cur > open cur \<and> close cur > open prev \<and>
              jgt volMult (Fin REVERSAL_VOLUME_MULT))
     then
       (let finalScore =
              jadd (jadd (Fin 45) (jmin (Fin 25) (jmul (jsub volMult (Fin 1)) (Fin 15))))
                   (Fin (if close cur > open prev2 then 15 else 5))
        in \<lparr> type = SUDDEN_REVERSAL_UP, stochRsi = stoch, score = finalScore \<rparr>)
     else if (close prev > open prev \<and> close prev2 > open prev2 \<and> jgt stoch (Fin 80)) \<and>
             (close cur < open cur \<and> close cur < open prev \<and>
              jgt volMult (Fin REVERSAL_VOLUME_MULT))
     then
       (let finalScore =
              jadd (jadd (Fin 45) (jmin (Fin 25) (jmul (jsub volMult (Fin 1)) (Fin 15))))
                   (Fin (if close cur < open prev2 then 15 else 5))
        in \<lparr> type = SUDDEN_REVERSAL_DOWN, stochRsi = stoch, score = finalScore \<rparr>)
     else if (close cur > open cur \<and> close prev < open prev \<and> body > prevBody) \<and>
             (jlt stoch (Fin 20) \<and> jle (Fin (low cur)) recentLow)
     then
       (let finalScore = 40 + (if jgt volMult (Fin 1.2) then 15 else 0)
                         + (if jgt (jdiv (Fin body) (Fin prevBody)) (Fin 1.5) then 20 else 10)
        in \<lparr> type = BULLISH_ENGULFING, stochRsi = stoch, score = Fin finalScore \<rparr>)
     else if (close cur < open cur \<and> close prev > open prev \<and> body > prevBody) \<and>
             (jgt stoch (Fin 80) \<and> jge (Fin (high cur)) recentHigh)
     then
       (let finalScore = 40 + (if jgt volMult (Fin 1.2) then 15 else 0)
                         + (if jgt (jdiv (Fin body) (Fin prevBody)) (Fin 1.5) then 20 else 10)
        in \<lparr> type = BEARISH_ENGULFING, stochRsi = stoch, score = Fin finalScore \<rparr>)
     else if lowerWick \<ge> rng * PINBA_WICK_PERCENT \<and> jle stoch (Fin 20) \<and>
             jle (Fin (low cur)) recentLow \<and> close next > open next
     then
       (let finalScore = 35 + (if lowerWick / body > 2 then 20 else 10)
                         + (if jgt volMult (Fin 1.2) then 15 else 0)
        in \<lparr> type = HAMMER, stochRsi = stoch, score = Fin finalScore \<rparr>)
     else if upperWick \<ge> rng * PINBA_WICK_PERCENT \<and> jge stoch (Fin 80) \<and>
             jge (Fin (high cur)) recentHigh \<and> close next < open next
     then
       (let finalScore = 35 + (if upperWick / body > 2 then 20 else 10)
                         + (if jgt volMult (Fin 1.2) then 15 else 0)
        in \<lparr> type = SHOOTING_STAR, stochRsi = stoch, score = Fin finalScore \<rparr>)
     else if body / rng < DOJI_BODY_THRESHOLD \<and>
             (jle (Fin (low cur)) recentLow \<or> jge (Fin (high cur)) recentHigh)
     then
       (let isExtreme = (jlt stoch (Fin 20) \<or> jgt stoch (Fin 80));
            finalScore = 30 + (if isExtreme then 30 else 0)
                         + (if jgt volMult (Fin 1.5) then 15 else 0)
        in \<lparr> type = DOJI, stochRsi = stoch, score = Fin finalScore \<rparr>)
     else \<lparr> type = NONE, stochRsi = stoch, score = Fin 0 \<rparr>)"

text \<open>
  The guard on the index, then the reads of lines 65 to 70 and 79. The four bars are bound
  where the source reads them; \<open>slice\<close> cannot raise, so taking the window before the
  degenerate-bar return changes nothing.
\<close>

definition detectSignal :: "Candle list \<Rightarrow> int \<Rightarrow> DetectResult option" where
  "detectSignal candles index =
     (if index < RECENT_LOOKBACK \<or> index > int (length candles) - 2
      then Some \<lparr> type = NONE, stochRsi = Fin 50, score = Fin 0 \<rparr>
      else do {
        cur \<leftarrow> candle_at candles index;
        prev \<leftarrow> candle_at candles (index - 1);
        prev2 \<leftarrow> candle_at candles (index - 2);
        next \<leftarrow> candle_at candles (index + 1);
        stoch \<leftarrow> calculateStochRSI candles index;
        let bb = calculateBollingerBands candles index;
            recentSlices = slice candles (index - RECENT_LOOKBACK) index
        in Some (detect_rules cur prev prev2 next stoch bb recentSlices)
      })"

section \<open>Scanner: scanForSignals\<close>

record TradingSignal =
  candle :: Candle
  sigtype :: SignalType
  timestamp :: int
  isConfirmed :: bool
  sigscore :: jsnum
  sigstochRsi :: jsnum

text \<open>
  The loop \<^verbatim>\<open>for (i = 25; i < candles.length - 1; i++)\<close> over the indices it is
  given, carrying the array \<open>signals\<close>. (The fields \<open>sigtype\<close>, \<open>sigscore\<close> and
  \<open>sigstochRsi\<close> of a signal are the source's \<^verbatim>\<open>type\<close>, \<^verbatim>\<open>score\<close> and
  \<^verbatim>\<open>stochRsi\<close>; the optional \<^verbatim>\<open>aiConfirmation\<close> is never set here.)
\<close>

fun scan_loop :: "Candle list \<Rightarrow> int list \<Rightarrow> TradingSignal list \<Rightarrow> TradingSignal list option" where
  "scan_loop candles [] signals = Some signals"
| "scan_loop candles (i # is) signals =
     do {
       r \<leftarrow> detectSignal candles i;
       if type r \<noteq> NONE then
         do {
           c \<leftarrow> candle_at candles i;
           scan_loop candles is
             (signals @ [\<lparr> candle = c, sigtype = type r, timestamp = time c,
                           isConfirmed = False, sigscore = score r, sigstochRsi = stochRsi r \<rparr>])
         }
       else scan_loop candles is signals
     }"

definition scanForSignals :: "Candle list \<Rightarrow> TradingSignal list option" where
  "scanForSignals candles = scan_loop candles [25 .. int (length candles) - 2] []"

section \<open>Example bar sequences\<close>

text \<open>
  Bars used to instantiate the theorems below. A flat bar opens and closes at 100 with
  wicks of 1 on both sides and volume 100; bar \<open>k\<close> is stamped \<open>60000 * k\<close> ms.
\<close>

definition flat_bar :: "int \<Rightarrow> Candle" where
  "flat_bar k = \<lparr> time = 60000 * k, open = 100, high = 101, low = 99, close = 100, volume = 100 \<rparr>"

definition flat_bars :: "nat \<Rightarrow> Candle list" where
  "flat_bars n = map (\<lambda>k. flat_bar (int k)) [0..<n]"

section \<open>The local constants and the rule conditions, by name\<close>

text \<open>
  The local constants of detectSignal (lines 72 to 83 and 106), as functions of a bar
  or of the sequence and the index: the theorems state their hypotheses with them.
\<close>

definition body_of :: "Candle \<Rightarrow> real" where
  "body_of c = max 0.0001 \<bar>close c - open c\<bar>"

definition upperWick_of :: "Candle \<Rightarrow> real" where
  "upperWick_of c = high c - max (open c) (close c)"

definition lowerWick_of :: "Candle \<Rightarrow> real" where
  "lowerWick_of c = min (open c) (close c) - low c"

definition recentSlices_of :: "Candle list \<Rightarrow> int \<Rightarrow> Candle list" where
  "recentSlices_of candles index = slice candles (index - RECENT_LOOKBACK) index"

definition avgVol_of :: "Candle list \<Rightarrow> int \<Rightarrow> real" where
  "avgVol_of candles index =
     foldl (\<lambda>sum c. sum + volume c) 0 (recentSlices_of candles index) / real_of_int RECENT_LOOKBACK"

definition recentLow_of :: "Candle list \<Rightarrow> int \<Rightarrow> jsnum" where
  "recentLow_of candles index = Math_min (map low (recentSlices_of candles index))"

definition recentHigh_of :: "Candle list \<Rightarrow> int \<Rightarrow> jsnum" where
  "recentHigh_of candles index = Math_max (map high (recentSlices_of candles index))"

definition volMult_of :: "Candle list \<Rightarrow> int \<Rightarrow> jsnum" where
  "volMult_of candles index =
     jdiv (Fin (volume (candles ! nat index))) (Fin (avgVol_of candles index))"

definition highsDiff_of :: "Candle list \<Rightarrow> int \<Rightarrow> jsnum" where
  "highsDiff_of candles index =
     jdiv (Fin \<bar>high (candles ! nat index) - high (candles ! nat (index - 1))\<bar>)
          (Fin (high (candles ! nat index)))"

text \<open>
  The conditions of rule 1 (institutional spring), rule 2 (institutional upthrust) and
  rule 11 (doji) as section 4.2 of the specification lists them, on the bar at
  \<open>index\<close>. Outside the cascade nothing has excluded a bar of range zero, so the
  quotient \<open>body / range\<close> of the doji rule is the JavaScript one.
\<close>

definition spring_conditions :: "Candle list \<Rightarrow> int \<Rightarrow> bool" where
  "spring_conditions candles index =
     (let c = candles ! nat index; n = candles ! nat (index + 1) in
      case (calculateBollingerBands candles index, calculateStochRSI candles index) of
        (Some b, Some st) \<Rightarrow>
          lowerWick_of c > body_of c * 3.0 \<and> jlt st (Fin 20) \<and>
          jgt (volMult_of candles index) (Fin 3) \<and>
          jlt (Fin (low c)) (recentLow_of candles index) \<and>
          low c < lower b \<and> close n > low c
      | _ \<Rightarrow> False)"

definition upthrust_conditions :: "Candle list \<Rightarrow> int \<Rightarrow> bool" where
  "upthrust_conditions candles index =
     (let c = candles ! nat index; n = candles ! nat (index + 1) in
      case (calculateBollingerBands candles index, calculateStochRSI candles index) of
        (Some b, Some st) \<Rightarrow>
          upperWick_of c > body_of c * 3.0 \<and> jgt st (Fin 80) \<and>
          jgt (volMult_of candles index) (Fin 3) \<and>
          jgt (Fin (high c)) (recentHigh_of candles index) \<and>
          high c > upper b \<and> close n < high c
      | _ \<Rightarrow> False)"

definition doji_conditions :: "Candle list \<Rightarrow> int \<Rightarrow> bool" where
  "doji_conditions candles index =
     (let c = candles ! nat index in
      jlt (jdiv (Fin (body_of c)) (Fin (high c - low c))) (Fin 0.05) \<and>
      (jle (Fin (low c)) (recentLow_of candles index) \<or>
       jge (Fin (high c)) (recentHigh_of candles index)))"

text \<open>The signals that the scanner pushes for one index: one, or none.\<close>

definition signals_at :: "Candle list \<Rightarrow> int \<Rightarrow> TradingSignal list" where
  "signals_at candles i =
     (case detectSignal candles i of
        None \<Rightarrow> []
      | Some r \<Rightarrow>
          if type r \<noteq> NONE
          then [\<lparr> candle = candles ! nat i, sigtype = type r, timestamp = time (candles ! nat i),
                  isConfirmed = False, sigscore = score r, sigstochRsi = stochRsi r \<rparr>]
          else [])"

text \<open>
  What holds of every result of the cascade: the score is a finite number within
  [0, 100], and an integer unless the rule adds a multiple of the volume ratio.
\<close>

definition score_ok :: "DetectResult \<Rightarrow> bool" where
  "score_ok r = (\<exists>s. score r = Fin s \<and> 0 \<le> s \<and> s \<le> 100 \<and>
      (type r \<noteq> INSTITUTIONAL_SPRING \<and> type r \<noteq> INSTITUTIONAL_UPTHRUST \<and>
       type r \<noteq> SUDDEN_REVERSAL_UP \<and> type r \<noteq> SUDDEN_REVERSAL_DOWN \<longrightarrow> s \<in> \<int>))"

section \<open>The indicators in the words of the specification\<close>




definition window_losses :: "Candle list \<Rightarrow> int \<Rightarrow> real" where
  "window_losses candles index =
     sum_list (map (\<lambda>i. max 0 (close (candles ! nat (i - 1)) - close (candles ! nat i)))
                   [index - RSI_PERIOD + 1 .. index])"

section \<open>Further example bar sequences\<close>

text \<open>Bar \<open>k\<close> of an example, stamped \<open>60000 * k\<close> ms.\<close>

definition bar :: "nat \<Rightarrow> real \<Rightarrow> real \<Rightarrow> real \<Rightarrow> real \<Rightarrow> real \<Rightarrow> Candle" where
  "bar k opn hi lo cl vol =
     \<lparr> time = 60000 * int k, open = opn, high = hi, low = lo, close = cl, volume = vol \<rparr>"

text \<open>
  52 bars for a spring at index 50. Every bar opens where it closes, with its high 1
  above; the closes are 100 up to bar 23, rise by 1 a bar to 114 at bar 37, drop to 80
  at bar 38, stay there and end at 85 (bars 50 and 51). Bar 50 has its low at 50 and
  volume \<open>v\<close>; every other bar has its low 1 below the close and volume 100.
\<close>

definition spring_close :: "nat \<Rightarrow> real" where
  "spring_close k = (if k \<le> 23 then 100 else if k \<le> 37 then 100 + real (k - 23)
                     else if k \<le> 49 then 80 else 85)"

definition spring_bar :: "real \<Rightarrow> nat \<Rightarrow> Candle" where
  "spring_bar v k = bar k (spring_close k) (spring_close k + 1)
                      (if k = 50 then 50 else spring_close k - 1) (spring_close k)
                      (if k = 50 then v else 100)"

definition spring_bars :: "real \<Rightarrow> Candle list" where
  "spring_bars v = map (spring_bar v) [0..<52]"

text \<open>
  52 bars for a tweezers top at index 50. The closes are 99970 up to bar 23, fall by 1 a
  bar to 99956 at bar 37, jump to 99977 at bar 38, stay there and end at 99974 (bars 50
  and 51). Bar 49 opens at 99976 (bullish) with its high at 99992; bar 50 opens at 99977
  (bearish) with its high at \<open>h\<close> and volume \<open>v\<close>; every other bar opens where it
  closes with its high at 99990. All lows are 99900 and all other volumes 100.
\<close>

definition tweezer_close :: "nat \<Rightarrow> real" where
  "tweezer_close k = (if k \<le> 23 then 99970 else if k \<le> 37 then 99970 - real (k - 23)
                      else if k \<le> 49 then 99977 else 99974)"

definition tweezer_bar :: "real \<Rightarrow> real \<Rightarrow> nat \<Rightarrow> Candle" where
  "tweezer_bar h v k = bar k (if k = 49 then 99976 else if k = 50 then 99977 else tweezer_close k)
                       (if k = 49 then 99992 else if k = 50 then h else 99990)
                       99900 (tweezer_close k) (if k = 50 then v else 100)"

definition tweezer_bars :: "real \<Rightarrow> real \<Rightarrow> Candle list" where
  "tweezer_bars h v = map (tweezer_bar h v) [0..<52]"

section \<open>The indicators never read outside the bars they are given\<close>

lemma candle_at_Some: "0 \<le> i \<Longrightarrow> i < int (length cs) \<Longrightarrow> candle_at cs i = Some (cs ! nat i)"
  by (simp add: candle_at_def)

lemma rsi_loop_Some:
  "\<forall>i\<in>set is. 1 \<le> i \<and> i < int (length cs) \<Longrightarrow> \<exists>g l. rsi_loop cs is (g0, l0) = Some (g, l)"
  by (induction "is" arbitrary: g0 l0) (auto simp: candle_at_def Let_def)

lemma rsi_loop_nonneg:
  "rsi_loop cs is (g0, l0) = Some (g, l) \<Longrightarrow> 0 \<le> g0 \<Longrightarrow> 0 \<le> l0 \<Longrightarrow> 0 \<le> g \<and> 0 \<le> l"
proof (induction "is" arbitrary: g0 l0)
  case Nil
  then show ?case by simp
next
  case (Cons i "is")
  from Cons.prems(1) obtain ci cp where
    ci: "candle_at cs i = Some ci" and cp: "candle_at cs (i - 1) = Some cp"
    by (auto simp: bind_eq_Some_conv)
  show ?case
  proof (cases "close ci - close cp \<ge> 0")
    case True
    with Cons.prems ci cp have "rsi_loop cs is (g0 + (close ci - close cp), l0) = Some (g, l)"
      by (simp add: Let_def)
    from Cons.IH[OF this] True Cons.prems show ?thesis by simp
  next
    case False
    with Cons.prems ci cp have "rsi_loop cs is (g0, l0 - (close ci - close cp)) = Some (g, l)"
      by (simp add: Let_def)
    from Cons.IH[OF this] False Cons.prems show ?thesis by simp
  qed
qed

lemma calculateRSIValue_Some:
  "index < int (length cs) \<Longrightarrow> \<exists>r. calculateRSIValue cs index = Some r"
proof (cases "index < 14")
  case True
  then show ?thesis by (simp add: calculateRSIValue_def)
next
  case False
  assume "index < int (length cs)"
  with False have "\<forall>i\<in>set [index - 14 + 1 .. index]. 1 \<le> i \<and> i < int (length cs)" by auto
  from rsi_loop_Some[OF this, of 0 0] obtain g l where
    "rsi_loop cs [index - 14 + 1 .. index] (0, 0) = Some (g, l)" by blast
  with False show ?thesis by (simp add: calculateRSIValue_def Let_def)
qed

lemma calculateRSIValue_range:
  assumes "calculateRSIValue cs index = Some r"
  shows "0 \<le> r \<and> r \<le> 100"
proof (cases "index < 14")
  case True
  with assms show ?thesis by (simp add: calculateRSIValue_def)
next
  case False
  with assms obtain g l where
    gl: "rsi_loop cs [index - 14 + 1 .. index] (0, 0) = Some (g, l)"
    and r: "r = (if l = 0 then 100 else 100 - (100 / (1 + (g / 14) / (l / 14))))"
    by (auto simp: calculateRSIValue_def Let_def bind_eq_Some_conv split: if_splits)
  from rsi_loop_nonneg[OF gl] have g: "0 \<le> g" and l: "0 \<le> l" by simp_all
  show ?thesis
  proof (cases "l = 0")
    case True
    with r show ?thesis by simp
  next
    case False
    with l have lp: "0 < l" by simp
    have rs: "0 \<le> (g / 14) / (l / 14)" using g lp by simp
    then have "0 < 1 + (g / 14) / (l / 14)" by linarith
    moreover have "100 / (1 + (g / 14) / (l / 14)) \<le> 100"
      using rs by (simp add: divide_le_eq)
    moreover have "0 \<le> 100 / (1 + (g / 14) / (l / 14))" using rs by simp
    ultimately show ?thesis using r False by simp
  qed
qed

lemma rsi_values_Some:
  "\<forall>i\<in>set is. i < int (length cs) \<Longrightarrow>
   \<exists>rs. rsi_values cs is = Some rs \<and> length rs = length is"
proof (induction "is")
  case Nil
  then show ?case by simp
next
  case (Cons i "is")
  from Cons.prems have "i < int (length cs)" by simp
  from calculateRSIValue_Some[OF this] obtain r where r: "calculateRSIValue cs i = Some r" ..
  from Cons obtain rs where "rsi_values cs is = Some rs" "length rs = length is" by auto
  with r show ?case by simp
qed

lemma rsi_values_length: "rsi_values cs is = Some rs \<Longrightarrow> length rs = length is"
  by (induction "is" arbitrary: rs) (auto simp: bind_eq_Some_conv)

lemma rsi_values_range:
  "rsi_values cs is = Some rs \<Longrightarrow> \<forall>r\<in>set rs. 0 \<le> r \<and> r \<le> 100"
proof (induction "is" arbitrary: rs)
  case Nil
  then show ?case by simp
next
  case (Cons i "is")
  from Cons.prems obtain r rs' where
    r: "calculateRSIValue cs i = Some r" and rs': "rsi_values cs is = Some rs'" and
    eq: "rs = r # rs'"
    by (auto simp: bind_eq_Some_conv)
  from calculateRSIValue_range[OF r] Cons.IH[OF rs'] eq show ?case by simp
qed

lemma Math_min_nonempty: "xs \<noteq> [] \<Longrightarrow> Math_min xs = Fin (Min (set xs))"
proof (cases xs)
  case Nil
  assume "xs \<noteq> []"
  with Nil show ?thesis by simp
next
  case (Cons a list)
  then show ?thesis using Min.set_eq_fold[of a list] by simp
qed

lemma Math_max_nonempty: "xs \<noteq> [] \<Longrightarrow> Math_max xs = Fin (Max (set xs))"
proof (cases xs)
  case Nil
  assume "xs \<noteq> []"
  with Nil show ?thesis by simp
next
  case (Cons a list)
  then show ?thesis using Max.set_eq_fold[of a list] by simp
qed

lemma stoch_fin:
  "(if jeq (Fin mx) (Fin mn) then Some (Fin 0)
    else Some (jmul (jdiv (jsub (Fin c) (Fin mn)) (jsub (Fin mx) (Fin mn))) (Fin 100)))
   = Some (Fin (if mx = mn then 0 else (c - mn) / (mx - mn) * 100))"
  by (simp add: jeq_def jsub_def)

lemma num_at_last: "xs \<noteq> [] \<Longrightarrow> num_at xs (int (length xs) - 1) = Fin (last xs)"
  by (cases xs rule: rev_cases) (simp_all add: num_at_def nat_diff_distrib')

text \<open>What \<open>calculateStochRSI\<close> computes from a non-empty array of RSI values.\<close>

lemma stoch_of_values:
  assumes "rs \<noteq> []"
  shows "(let currentRsi = num_at rs (int (length rs) - 1);
              minRsi = Math_min rs; maxRsi = Math_max rs
          in if jeq maxRsi minRsi then Some (Fin 0)
             else Some (jmul (jdiv (jsub currentRsi minRsi) (jsub maxRsi minRsi)) (Fin 100)))
         = Some (Fin (if Max (set rs) = Min (set rs) then 0
                      else (last rs - Min (set rs)) / (Max (set rs) - Min (set rs)) * 100))"
  unfolding Let_def num_at_last[OF assms] Math_min_nonempty[OF assms] Math_max_nonempty[OF assms]
  by (rule stoch_fin)

lemma calculateStochRSI_eq:
  assumes "RSI_PERIOD + STOCH_PERIOD \<le> index"
    and "rsi_values cs [index - STOCH_PERIOD + 1 .. index] = Some rs"
  shows "rs \<noteq> [] \<and> calculateStochRSI cs index =
         Some (Fin (if Max (set rs) = Min (set rs) then 0
                    else (last rs - Min (set rs)) / (Max (set rs) - Min (set rs)) * 100))"
proof -
  from rsi_values_length[OF assms(2)] have ne: "rs \<noteq> []" by auto
  from assms stoch_of_values[OF ne] ne show ?thesis
    by (simp add: calculateStochRSI_def)
qed

lemma calculateStochRSI_Some:
  assumes "index < int (length cs)"
  shows "\<exists>s. calculateStochRSI cs index = Some (Fin s) \<and> 0 \<le> s \<and> s \<le> 100"
proof (cases "index < 28")
  case True
  then show ?thesis by (simp add: calculateStochRSI_def)
next
  case False
  from assms have "\<forall>i\<in>set [index - 14 + 1 .. index]. i < int (length cs)" by auto
  from rsi_values_Some[OF this] obtain rs where
    rs: "rsi_values cs [index - 14 + 1 .. index] = Some rs" by blast
  from False calculateStochRSI_eq[OF _ rs] have ne: "rs \<noteq> []" and
    eq: "calculateStochRSI cs index =
         Some (Fin (if Max (set rs) = Min (set rs) then 0
                    else (last rs - Min (set rs)) / (Max (set rs) - Min (set rs)) * 100))"
    by simp_all
  let ?mn = "Min (set rs)" and ?mx = "Max (set rs)"
  have l1: "?mn \<le> last rs" using ne by simp
  have l2: "last rs \<le> ?mx" using ne by simp
  have "0 \<le> (last rs - ?mn) / (?mx - ?mn) * 100 \<and> (last rs - ?mn) / (?mx - ?mn) * 100 \<le> 100"
    if "?mx \<noteq> ?mn"
  proof -
    define q where "q = (last rs - ?mn) / (?mx - ?mn)"
    from that l1 l2 have pos: "0 < ?mx - ?mn" by linarith
    have "q \<le> 1" unfolding q_def using pos l2 by (simp add: divide_le_eq)
    moreover have "0 \<le> q" unfolding q_def using pos l1 by simp
    ultimately have "0 \<le> q * 100 \<and> q * 100 \<le> 100" by simp
    then show ?thesis unfolding q_def .
  qed
  with eq show ?thesis by auto
qed

section \<open>The range guard and the reads of detectSignal\<close>

lemma detectSignal_guard:
  "index < RECENT_LOOKBACK \<or> index > int (length candles) - 2 \<Longrightarrow>
   detectSignal candles index = Some \<lparr> type = NONE, stochRsi = Fin 50, score = Fin 0 \<rparr>"
  by (simp add: detectSignal_def)

lemma detectSignal_in_range:
  assumes "RECENT_LOOKBACK \<le> index" and "index \<le> int (length candles) - 2"
  shows "\<exists>s. calculateStochRSI candles index = Some (Fin s) \<and> 0 \<le> s \<and> s \<le> 100 \<and>
           detectSignal candles index =
           Some (detect_rules (candles ! nat index) (candles ! nat (index - 1))
                   (candles ! nat (index - 2)) (candles ! nat (index + 1)) (Fin s)
                   (calculateBollingerBands candles index)
                   (slice candles (index - RECENT_LOOKBACK) index))"
proof -
  from assms have lt: "index < int (length candles)" by simp
  from calculateStochRSI_Some[OF lt] obtain s where
    s: "calculateStochRSI candles index = Some (Fin s)" "0 \<le> s" "s \<le> 100" by blast
  from assms have "candle_at candles index = Some (candles ! nat index)"
    "candle_at candles (index - 1) = Some (candles ! nat (index - 1))"
    "candle_at candles (index - 2) = Some (candles ! nat (index - 2))"
    "candle_at candles (index + 1) = Some (candles ! nat (index + 1))"
    by (simp_all add: candle_at_def)
  with assms s show ?thesis by (simp add: detectSignal_def Let_def)
qed

lemma detectSignal_total: "\<exists>r. detectSignal candles index = Some r"
proof (cases "index < RECENT_LOOKBACK \<or> index > int (length candles) - 2")
  case True
  from detectSignal_guard[OF this] show ?thesis by blast
next
  case False
  then have "RECENT_LOOKBACK \<le> index" "index \<le> int (length candles) - 2" by simp_all
  from detectSignal_in_range[OF this] show ?thesis by blast
qed

lemma scan_loop_below_lookback:
  "\<forall>i\<in>set is. i < RECENT_LOOKBACK \<Longrightarrow> scan_loop candles is signals = Some signals"
  by (induction "is" arbitrary: signals) (simp_all add: detectSignal_guard)

lemma scan_short: "length candles < 52 \<Longrightarrow> scanForSignals candles = Some []"
  unfolding scanForSignals_def by (rule scan_loop_below_lookback) auto

section \<open>Scores of the rules\<close>

lemma climax_score:
  assumes "jgt v (Fin 3)" and "a = 0 \<or> a = 10" and "b = 0 \<or> b = 10"
  shows "\<exists>s. jmin (Fin 95)
              (jadd (jadd (jadd (Fin 60) (jmin (Fin 20) (jmul (jsub v (Fin 2)) (Fin 10))))
                 (Fin a)) (Fin b)) = Fin s \<and> 70 \<le> s \<and> s \<le> 95"
proof (cases v)
  case (Fin x)
  with assms(1) have "3 < x" by (simp add: jgt_def)
  with Fin assms(2,3) show ?thesis by (auto simp: jsub_def min_def)
next
  case PInf
  with assms(2,3) show ?thesis by (auto simp: jsub_def)
next
  case NInf
  with assms(1) show ?thesis by (simp add: jgt_def)
next
  case NaN
  with assms(1) show ?thesis by (simp add: jgt_def)
qed

lemma reversal_score:
  assumes "jgt v (Fin 2)" and "c = 15 \<or> c = 5"
  shows "\<exists>s. jadd (jadd (Fin 45) (jmin (Fin 25) (jmul (jsub v (Fin 1)) (Fin 15)))) (Fin c) = Fin s
             \<and> 65 \<le> s \<and> s \<le> 85"
proof (cases v)
  case (Fin x)
  with assms(1) have "2 < x" by (simp add: jgt_def)
  with Fin assms(2) show ?thesis by (auto simp: jsub_def min_def)
next
  case PInf
  with assms(2) show ?thesis by (auto simp: jsub_def)
next
  case NInf
  with assms(1) show ?thesis by (simp add: jgt_def)
next
  case NaN
  with assms(1) show ?thesis by (simp add: jgt_def)
qed

lemma score_ok_if:
  "(c \<Longrightarrow> score_ok a) \<Longrightarrow> score_ok b \<Longrightarrow> score_ok (if c then a else b)"
  by simp

lemma score_ok_int:
  "0 \<le> s \<Longrightarrow> s \<le> 100 \<Longrightarrow> s \<in> \<int> \<Longrightarrow> score_ok \<lparr> type = T, stochRsi = x, score = Fin s \<rparr>"
  by (simp add: score_ok_def)

lemma score_ok_climax:
  assumes "jgt v (Fin 3)" and "T = INSTITUTIONAL_SPRING \<or> T = INSTITUTIONAL_UPTHRUST"
  shows "score_ok \<lparr> type = T, stochRsi = x, score = jmin (Fin 95)
              (jadd (jadd (jadd (Fin 60) (jmin (Fin 20) (jmul (jsub v (Fin 2)) (Fin 10))))
                 (Fin (if p then 10 else 0))) (Fin (if q then 10 else 0))) \<rparr>"
proof -
  have "(if p then 10 else 0) = (0::real) \<or> (if p then 10 else 0) = (10::real)"
    "(if q then 10 else 0) = (0::real) \<or> (if q then 10 else 0) = (10::real)" by simp_all
  from climax_score[OF assms(1) this] obtain s where
    "jmin (Fin 95)
              (jadd (jadd (jadd (Fin 60) (jmin (Fin 20) (jmul (jsub v (Fin 2)) (Fin 10))))
                 (Fin (if p then 10 else 0))) (Fin (if q then 10 else 0))) = Fin s"
    "70 \<le> s" "s \<le> 95" by blast
  with assms(2) show ?thesis unfolding score_ok_def by auto
qed

lemma score_ok_reversal:
  assumes "jgt v (Fin 2)" and "T = SUDDEN_REVERSAL_UP \<or> T = SUDDEN_REVERSAL_DOWN"
  shows "score_ok \<lparr> type = T, stochRsi = x, score =
            jadd (jadd (Fin 45) (jmin (Fin 25) (jmul (jsub v (Fin 1)) (Fin 15))))
                 (Fin (if p then 15 else 5)) \<rparr>"
proof -
  have "(if p then 15 else 5) = (15::real) \<or> (if p then 15 else 5) = (5::real)" by simp
  from reversal_score[OF assms(1) this] obtain s where
    "jadd (jadd (Fin 45) (jmin (Fin 25) (jmul (jsub v (Fin 1)) (Fin 15))))
                 (Fin (if p then 15 else 5)) = Fin s" "65 \<le> s" "s \<le> 85" by blast
  with assms(2) show ?thesis unfolding score_ok_def by auto
qed

lemma detect_rules_score:
  "score_ok (detect_rules cur prev prev2 next stoch bb recentSlices)"
  unfolding detect_rules_def Let_def
  apply (intro score_ok_if)
  subgoal by (rule score_ok_int) simp_all
  subgoal by (rule score_ok_climax) (simp_all split: option.splits del: jdiv.simps)
  subgoal by (rule score_ok_climax) (simp_all split: option.splits del: jdiv.simps)
  subgoal by (rule score_ok_int) simp_all
  subgoal by (rule score_ok_int) simp_all
  subgoal by (rule score_ok_reversal) (simp_all del: jdiv.simps)
  subgoal by (rule score_ok_reversal) (simp_all del: jdiv.simps)
  subgoal by (rule score_ok_int) simp_all
  subgoal by (rule score_ok_int) simp_all
  subgoal by (rule score_ok_int) simp_all
  subgoal by (rule score_ok_int) simp_all
  subgoal by (rule score_ok_int) simp_all
  subgoal by (rule score_ok_int) simp_all
  done

section \<open>The first rules of the cascade\<close>

lemma detect_rules_spring:
  assumes "high cur - low cur \<noteq> 0" and "bb = Some b"
    and "lowerWick_of cur > body_of cur * 3.0" and "jlt stoch (Fin 20)"
    and "jgt (jdiv (Fin (volume cur)) (Fin (foldl (\<lambda>sum c. sum + volume c) 0 recent / 50))) (Fin 3)"
    and "jlt (Fin (low cur)) (Math_min (map low recent))"
    and "low cur < lower b" and "close next > low cur"
  shows "detect_rules cur prev prev2 next stoch bb recent =
         \<lparr> type = INSTITUTIONAL_SPRING, stochRsi = stoch,
           score = jmin (Fin 95)
             (jadd (jadd (jadd (Fin 60)
                (jmin (Fin 20) (jmul (jsub (jdiv (Fin (volume cur))
                     (Fin (foldl (\<lambda>sum c. sum + volume c) 0 recent / 50))) (Fin 2)) (Fin 10))))
                (Fin 10)) (Fin (if jlt stoch (Fin 15) then 10 else 0))) \<rparr>"
  using assms unfolding detect_rules_def Let_def body_of_def lowerWick_of_def of_int_numeral
  by (simp del: jdiv.simps)

lemma detect_rules_not_upthrust_tweezers_top:
  assumes "high cur - low cur \<noteq> 0" and "\<not> jlt stoch (Fin 20)"
    and "\<not> (case bb of None \<Rightarrow> False | Some b \<Rightarrow>
           upperWick_of cur > body_of cur * 3.0 \<and> jgt stoch (Fin 80) \<and>
           jgt (jdiv (Fin (volume cur)) (Fin (foldl (\<lambda>sum c. sum + volume c) 0 recent / 50)))
               (Fin 3) \<and>
           jgt (Fin (high cur)) (Math_max (map high recent)) \<and>
           high cur > upper b \<and> close next < high cur)"
    and "jlt (jdiv (Fin \<bar>high cur - high prev\<bar>) (Fin (high cur))) (Fin 0.0001)"
    and "close prev > open prev" and "close cur < open cur" and "jgt stoch (Fin 85)"
    and "jge (Fin (high cur)) (Math_max (map high recent))"
  shows "detect_rules cur prev prev2 next stoch bb recent =
         \<lparr> type = TWEEZERS_TOP, stochRsi = stoch,
           score = Fin (50 + (if jgt stoch (Fin 90) then 15 else 5)
                     + (if volume cur > foldl (\<lambda>sum c. sum + volume c) 0 recent / 50 * 1.5
                        then 15 else 0)
                     + (if jlt (jdiv (Fin \<bar>high cur - high prev\<bar>) (Fin (high cur))) (Fin 0.00005)
                        then 10 else 0)) \<rparr>"
proof -
  have c1: "\<not> (case bb of None \<Rightarrow> False | Some b \<Rightarrow>
           min (open cur) (close cur) - low cur > max 0.0001 \<bar>close cur - open cur\<bar> * 3.0 \<and>
           jlt stoch (Fin 20) \<and>
           jgt (jdiv (Fin (volume cur)) (Fin (foldl (\<lambda>sum c. sum + volume c) 0 recent / 50)))
               (Fin 3) \<and>
           jlt (Fin (low cur)) (Math_min (map low recent)) \<and>
           low cur < lower b \<and> close next > low cur)"
    using assms(2) by (simp split: option.splits)
  show ?thesis
    unfolding detect_rules_def Let_def of_int_numeral
    using assms(1) c1 assms(3-)
    unfolding body_of_def upperWick_of_def
    by (simp del: jdiv.simps)
qed

section \<open>The scanner, index by index\<close>

lemma signals_at_length: "length (signals_at candles i) \<le> 1"
  by (simp add: signals_at_def split: option.splits)

lemma detectSignal_hit_in_range:
  assumes "detectSignal candles i = Some r" and "type r \<noteq> NONE"
  shows "RECENT_LOOKBACK \<le> i \<and> i \<le> int (length candles) - 2"
proof (rule ccontr)
  assume "\<not> (RECENT_LOOKBACK \<le> i \<and> i \<le> int (length candles) - 2)"
  then have "i < RECENT_LOOKBACK \<or> i > int (length candles) - 2" by linarith
  from detectSignal_guard[OF this] assms show False by simp
qed

lemma scan_loop_concat:
  "scan_loop candles is signals = Some (signals @ concat (map (signals_at candles) is))"
proof (induction "is" arbitrary: signals)
  case Nil
  then show ?case by simp
next
  case (Cons i "is")
  from detectSignal_total obtain r where r: "detectSignal candles i = Some r" by blast
  show ?case
  proof (cases "type r = NONE")
    case True
    with r Cons.IH show ?thesis by (simp add: signals_at_def)
  next
    case False
    from detectSignal_hit_in_range[OF r False]
    have "candle_at candles i = Some (candles ! nat i)" by (simp add: candle_at_def)
    with r False Cons.IH show ?thesis by (simp add: signals_at_def)
  qed
qed

section \<open>The example bar sequences, evaluated\<close>

lemma foldl_add_const:
  "\<forall>c\<in>set xs. f c = a \<Longrightarrow> foldl (\<lambda>sum c. sum + f c) s xs = s + real (length xs) * a"
  by (induction xs arbitrary: s) (simp_all add: algebra_simps)

lemma Math_min_eqI: "m \<in> set xs \<Longrightarrow> \<forall>x\<in>set xs. m \<le> x \<Longrightarrow> Math_min xs = Fin m"
proof -
  assume m: "m \<in> set xs" and le: "\<forall>x\<in>set xs. m \<le> x"
  then have "xs \<noteq> []" by auto
  moreover have "Min (set xs) = m" using m le by (intro Min_eqI) auto
  ultimately show ?thesis by (simp add: Math_min_nonempty)
qed

lemma Math_max_eqI: "m \<in> set xs \<Longrightarrow> \<forall>x\<in>set xs. x \<le> m \<Longrightarrow> Math_max xs = Fin m"
proof -
  assume m: "m \<in> set xs" and le: "\<forall>x\<in>set xs. x \<le> m"
  then have "xs \<noteq> []" by auto
  moreover have "Max (set xs) = m" using m le by (intro Max_eqI) auto
  ultimately show ?thesis by (simp add: Math_max_nonempty)
qed

lemma spring_bars_length: "length (spring_bars v) = 52"
  by (simp add: spring_bars_def)

lemma spring_bars_nth: "k < 52 \<Longrightarrow> spring_bars v ! k = spring_bar v k"
  by (simp add: spring_bars_def)

lemma spring_bars_at:
  "0 \<le> i \<Longrightarrow> i < 52 \<Longrightarrow> candle_at (spring_bars v) i = Some (spring_bar v (nat i))"
  by (simp add: candle_at_def spring_bars_length spring_bars_nth)

lemma spring_bars_stoch: "calculateStochRSI (spring_bars v) 50 = Some (Fin 10)"
  by (simp add: calculateStochRSI_def calculateRSIValue_def spring_bars_at spring_bar_def
      bar_def spring_close_def num_at_def jeq_def jsub_def)

lemma spring_bars_recent: "recentSlices_of (spring_bars v) 50 = map (spring_bar v) [0..<50]"
  by (simp add: recentSlices_of_def slice_def spring_bars_def take_map)

lemma spring_bars_avgVol: "avgVol_of (spring_bars v) 50 = 100"
proof -
  have "\<forall>c\<in>set (map (spring_bar v) [0..<50]). volume c = 100"
    by (auto simp: spring_bar_def bar_def)
  from foldl_add_const[OF this, of 0] show ?thesis
    by (simp add: avgVol_of_def spring_bars_recent)
qed

lemma spring_bars_recentLow: "recentLow_of (spring_bars v) 50 = Fin 79"
  unfolding recentLow_of_def spring_bars_recent
proof (rule Math_min_eqI)
  have "low (spring_bar v 38) = 79" by (simp add: spring_bar_def bar_def spring_close_def)
  then show "79 \<in> set (map low (map (spring_bar v) [0..<50]))" by force
  show "\<forall>x\<in>set (map low (map (spring_bar v) [0..<50])). 79 \<le> x"
    by (auto simp: spring_bar_def bar_def spring_close_def)
qed

lemma spring_bars_recentHigh: "recentHigh_of (spring_bars v) 50 = Fin 115"
  unfolding recentHigh_of_def spring_bars_recent
proof (rule Math_max_eqI)
  have "high (spring_bar v 37) = 115" by (simp add: spring_bar_def bar_def spring_close_def)
  then show "115 \<in> set (map high (map (spring_bar v) [0..<50]))" by force
  show "\<forall>x\<in>set (map high (map (spring_bar v) [0..<50])). x \<le> 115"
    by (auto simp: spring_bar_def bar_def spring_close_def)
qed

lemma spring_bars_volMult: "volMult_of (spring_bars v) 50 = Fin (v / 100)"
  by (simp add: volMult_of_def spring_bars_avgVol spring_bars_nth spring_bar_def bar_def)

lemma spring_bars_bb:
  "calculateBollingerBands (spring_bars v) 50 =
     Some \<lparr> middle = 911 / 10, upper = 911 / 10 + 2 * sqrt (21579 / 100),
            lower = 911 / 10 - 2 * sqrt (21579 / 100) \<rparr>"
  by (simp add: calculateBollingerBands_def slice_def spring_bars_def take_map drop_map
      spring_bar_def bar_def spring_close_def power2_eq_square Let_def)

lemma sqrt_21579_100: "sqrt (21579 / 100) \<le> 20"
  by (rule real_le_lsqrt) simp_all

lemma spring_bars_detect:
  assumes "300 < v"
  shows "detectSignal (spring_bars v) 50 =
         Some \<lparr> type = INSTITUTIONAL_SPRING, stochRsi = Fin 10,
                score = Fin (min 95 (60 + min 20 ((v / 100 - 2) * 10) + 10 + 10)) \<rparr>"
proof -
  let ?cs = "spring_bars v"
  let ?b = "\<lparr> middle = 911 / 10, upper = 911 / 10 + 2 * sqrt (21579 / 100),
              lower = 911 / 10 - 2 * sqrt (21579 / 100) \<rparr>"
  have c50: "?cs ! 50 = bar 50 85 86 50 85 v" and c51: "?cs ! 51 = bar 51 85 86 84 85 100"
    by (simp_all add: spring_bars_nth spring_bar_def spring_close_def)
  have h1: "RECENT_LOOKBACK \<le> (50::int)" by simp
  have h2: "(50::int) \<le> int (length ?cs) - 2" by (simp add: spring_bars_length)
  have vm: "jdiv (Fin (volume (?cs ! 50)))
              (Fin (foldl (\<lambda>sum c. sum + volume c) 0 (recentSlices_of ?cs 50) / 50)) = Fin (v / 100)"
    using spring_bars_volMult[of v] by (simp add: volMult_of_def avgVol_of_def)
  from detectSignal_in_range[OF h1 h2] have
    "detectSignal ?cs 50 =
       Some (detect_rules (?cs ! 50) (?cs ! 49) (?cs ! 48) (?cs ! 51) (Fin 10) (Some ?b)
               (recentSlices_of ?cs 50))"
    by (simp add: spring_bars_stoch spring_bars_bb recentSlices_of_def)
  also have "detect_rules (?cs ! 50) (?cs ! 49) (?cs ! 48) (?cs ! 51) (Fin 10) (Some ?b)
               (recentSlices_of ?cs 50)
        = \<lparr> type = INSTITUTIONAL_SPRING, stochRsi = Fin 10,
            score = jmin (Fin 95)
             (jadd (jadd (jadd (Fin 60)
                (jmin (Fin 20) (jmul (jsub (jdiv (Fin (volume (?cs ! 50)))
                     (Fin (foldl (\<lambda>sum c. sum + volume c) 0 (recentSlices_of ?cs 50) / 50)))
                     (Fin 2)) (Fin 10))))
                (Fin 10)) (Fin (if jlt (Fin 10) (Fin 15) then 10 else 0))) \<rparr>"
  proof (rule detect_rules_spring[OF _ refl])
    show "high (?cs ! 50) - low (?cs ! 50) \<noteq> 0" by (simp add: c50 bar_def)
    show "body_of (?cs ! 50) * 3.0 < lowerWick_of (?cs ! 50)"
      by (simp add: c50 bar_def lowerWick_of_def body_of_def)
    show "jlt (Fin 10) (Fin 20)" by simp
    show "jgt (jdiv (Fin (volume (?cs ! 50)))
            (Fin (foldl (\<lambda>sum c. sum + volume c) 0 (recentSlices_of ?cs 50) / 50))) (Fin 3)"
      unfolding vm using assms by (simp add: jgt_def)
    show "jlt (Fin (low (?cs ! 50))) (Math_min (map low (recentSlices_of ?cs 50)))"
      using spring_bars_recentLow[of v] by (simp add: recentLow_of_def c50 bar_def)
    show "low (?cs ! 50) < lower ?b" using sqrt_21579_100 by (simp add: c50 bar_def)
    show "low (?cs ! 50) < close (?cs ! 51)" by (simp add: c50 c51 bar_def)
  qed
  also have "\<dots> = \<lparr> type = INSTITUTIONAL_SPRING, stochRsi = Fin 10,
                score = Fin (min 95 (60 + min 20 ((v / 100 - 2) * 10) + 10 + 10)) \<rparr>"
    unfolding vm by (simp add: jsub_def)
  finally show ?thesis .
qed

lemma half_185_not_int: "(185 / 2 :: real) \<notin> \<int>"
proof
  assume "(185 / 2 :: real) \<in> \<int>"
  then obtain k :: int where "185 / 2 = real_of_int k" by (auto elim: Ints_cases)
  then have "real_of_int (2 * k) = real_of_int 185" by simp
  then have "2 * k = 185" by (simp only: of_int_eq_iff)
  then show False by presburger
qed

lemma tweezer_bars_length: "length (tweezer_bars h v) = 52"
  by (simp add: tweezer_bars_def)

lemma tweezer_bars_nth: "k < 52 \<Longrightarrow> tweezer_bars h v ! k = tweezer_bar h v k"
  by (simp add: tweezer_bars_def)

lemma tweezer_bars_at:
  "0 \<le> i \<Longrightarrow> i < 52 \<Longrightarrow> candle_at (tweezer_bars h v) i = Some (tweezer_bar h v (nat i))"
  by (simp add: candle_at_def tweezer_bars_length tweezer_bars_nth)

lemma tweezer_bars_stoch: "calculateStochRSI (tweezer_bars h v) 50 = Some (Fin 92)"
  by (simp add: calculateStochRSI_def calculateRSIValue_def tweezer_bars_at tweezer_bar_def
      bar_def tweezer_close_def num_at_def jeq_def jsub_def)

lemma tweezer_bars_recent: "recentSlices_of (tweezer_bars h v) 50 = map (tweezer_bar h v) [0..<50]"
  by (simp add: recentSlices_of_def slice_def tweezer_bars_def take_map)

lemma tweezer_bars_avgVol: "avgVol_of (tweezer_bars h v) 50 = 100"
proof -
  have "\<forall>c\<in>set (map (tweezer_bar h v) [0..<50]). volume c = 100"
    by (auto simp: tweezer_bar_def bar_def)
  from foldl_add_const[OF this, of 0] show ?thesis
    by (simp add: avgVol_of_def tweezer_bars_recent)
qed

lemma tweezer_bars_recentHigh: "recentHigh_of (tweezer_bars h v) 50 = Fin 99992"
  unfolding recentHigh_of_def tweezer_bars_recent
proof (rule Math_max_eqI)
  have "high (tweezer_bar h v 49) = 99992" by (simp add: tweezer_bar_def bar_def)
  then show "99992 \<in> set (map high (map (tweezer_bar h v) [0..<50]))" by force
  show "\<forall>x\<in>set (map high (map (tweezer_bar h v) [0..<50])). x \<le> 99992"
    by (auto simp: tweezer_bar_def bar_def)
qed

lemma tweezer_bars_volMult: "volMult_of (tweezer_bars h v) 50 = Fin (v / 100)"
  by (simp add: volMult_of_def tweezer_bars_avgVol tweezer_bars_nth tweezer_bar_def bar_def)

lemma tweezer_bars_not_upthrust: "v \<le> 300 \<Longrightarrow> \<not> upthrust_conditions (tweezer_bars h v) 50"
  by (cases "calculateBollingerBands (tweezer_bars h v) 50")
     (simp_all add: upthrust_conditions_def tweezer_bars_stoch tweezer_bars_volMult jgt_def)

lemma jlt_Fin_trans: "jlt x (Fin a) \<Longrightarrow> a \<le> b \<Longrightarrow> jlt x (Fin b)"
  by (cases x) simp_all

text \<open>The tweezers top at an in-range index, when neither institutional rule applies.\<close>

lemma detectSignal_tweezers_top:
  assumes "RECENT_LOOKBACK \<le> index" and "index \<le> int (length candles) - 2"
    and "max (open (candles ! nat index)) (close (candles ! nat index)) \<le> high (candles ! nat index)"
    and "low (candles ! nat index) \<le> min (open (candles ! nat index)) (close (candles ! nat index))"
    and "jlt (highsDiff_of candles index) (Fin 0.0001)"
    and "close (candles ! nat (index - 1)) > open (candles ! nat (index - 1))"
    and "close (candles ! nat index) < open (candles ! nat index)"
    and "calculateStochRSI candles index = Some (Fin 92)"
    and "jge (Fin (high (candles ! nat index))) (recentHigh_of candles index)"
    and "\<not> upthrust_conditions candles index"
  shows "detectSignal candles index =
         Some \<lparr> type = TWEEZERS_TOP, stochRsi = Fin 92,
                score = Fin (50 + 15
                  + (if volume (candles ! nat index) > 1.5 * avgVol_of candles index then 15 else 0)
                  + (if jlt (highsDiff_of candles index) (Fin 0.00005) then 10 else 0)) \<rparr>"
proof -
  let ?c = "candles ! nat index" and ?p = "candles ! nat (index - 1)"
  let ?bb = "calculateBollingerBands candles index" and ?rs = "recentSlices_of candles index"
  from detectSignal_in_range[OF assms(1,2)] assms(8) have ds:
    "detectSignal candles index =
       Some (detect_rules ?c ?p (candles ! nat (index - 2)) (candles ! nat (index + 1))
               (Fin 92) ?bb ?rs)"
    by (auto simp: recentSlices_of_def)
  from assms(3,4,7) have rng: "high ?c - low ?c \<noteq> 0" by simp
  have nu: "\<not> (case ?bb of None \<Rightarrow> False | Some b \<Rightarrow>
           upperWick_of ?c > body_of ?c * 3.0 \<and> jgt (Fin 92) (Fin 80) \<and>
           jgt (jdiv (Fin (volume ?c)) (Fin (foldl (\<lambda>sum c. sum + volume c) 0 ?rs / 50)))
               (Fin 3) \<and>
           jgt (Fin (high ?c)) (Math_max (map high ?rs)) \<and>
           high ?c > upper b \<and> close (candles ! nat (index + 1)) < high ?c)"
    using assms(10) assms(8)
    by (simp add: upthrust_conditions_def Let_def volMult_of_def avgVol_of_def recentHigh_of_def
        split: option.splits del: jdiv.simps)
  have hd: "jdiv (Fin \<bar>high ?c - high ?p\<bar>) (Fin (high ?c)) = highsDiff_of candles index"
    by (simp add: highsDiff_of_def)
  have "detect_rules ?c ?p (candles ! nat (index - 2)) (candles ! nat (index + 1)) (Fin 92) ?bb ?rs
        = \<lparr> type = TWEEZERS_TOP, stochRsi = Fin 92,
           score = Fin (50 + (if jgt (Fin 92) (Fin 90) then 15 else 5)
                     + (if volume ?c > foldl (\<lambda>sum c. sum + volume c) 0 ?rs / 50 * 1.5
                        then 15 else 0)
                     + (if jlt (jdiv (Fin \<bar>high ?c - high ?p\<bar>) (Fin (high ?c))) (Fin 0.00005)
                        then 10 else 0)) \<rparr>"
  proof (rule detect_rules_not_upthrust_tweezers_top[OF rng _ nu])
    show "\<not> jlt (Fin 92) (Fin 20)" by simp
    show "jlt (jdiv (Fin \<bar>high ?c - high ?p\<bar>) (Fin (high ?c))) (Fin 0.0001)"
      unfolding hd by (rule assms(5))
    show "open ?p < close ?p" by (rule assms(6))
    show "close ?c < open ?c" by (rule assms(7))
    show "jgt (Fin 92) (Fin 85)" by (simp add: jgt_def)
    show "jge (Fin (high ?c)) (Math_max (map high ?rs))"
      using assms(9) by (simp add: recentHigh_of_def)
  qed
  also have "\<dots> = \<lparr> type = TWEEZERS_TOP, stochRsi = Fin 92,
                score = Fin (50 + 15
                  + (if volume ?c > 1.5 * avgVol_of candles index then 15 else 0)
                  + (if jlt (highsDiff_of candles index) (Fin 0.00005) then 10 else 0)) \<rparr>"
    unfolding hd by (simp add: jgt_def avgVol_of_def mult.commute)
  finally show ?thesis using ds by simp
qed

section \<open>The indicators against the words of the specification\<close>






lemma rsi_loop_sums:
  "\<forall>i\<in>set is. 1 \<le> i \<and> i < int (length cs) \<Longrightarrow>
   rsi_loop cs is (g0, l0) =
     Some (g0 + sum_list (map (\<lambda>i. max 0 (close (cs ! nat i) - close (cs ! nat (i - 1)))) is),
           l0 + sum_list (map (\<lambda>i. max 0 (close (cs ! nat (i - 1)) - close (cs ! nat i))) is))"
proof (induction "is" arbitrary: g0 l0)
  case Nil
  then show ?case by simp
next
  case (Cons i "is")
  from Cons.prems have i: "candle_at cs i = Some (cs ! nat i)"
    "candle_at cs (i - 1) = Some (cs ! nat (i - 1))" by (simp_all add: candle_at_def)
  from Cons.prems have rest: "\<forall>i\<in>set is. 1 \<le> i \<and> i < int (length cs)" by simp
  show ?case
  proof (cases "close (cs ! nat i) - close (cs ! nat (i - 1)) \<ge> 0")
    case True
    with i Cons.IH[OF rest] show ?thesis by (simp add: Let_def max_def)
  next
    case False
    with i Cons.IH[OF rest] show ?thesis by (simp add: Let_def max_def)
  qed
qed

lemma calculateRSIValue_no_losses:
  assumes "RSI_PERIOD \<le> index" and "index < int (length candles)"
    and "window_losses candles index = 0"
  shows "calculateRSIValue candles index = Some 100"
proof -
  from assms(1,2) have "\<forall>i\<in>set [index - RSI_PERIOD + 1 .. index]. 1 \<le> i \<and> i < int (length candles)"
    by auto
  from rsi_loop_sums[OF this, of 0 0] assms(3) obtain g where
    "rsi_loop candles [index - RSI_PERIOD + 1 .. index] (0, 0) = Some (g, 0)"
    by (simp add: window_losses_def)
  with assms(1) show ?thesis by (simp add: calculateRSIValue_def)
qed

lemma calculateStochRSI_flat:
  assumes "RSI_PERIOD + STOCH_PERIOD \<le> index" and "index < int (length candles)"
  shows "\<exists>rs. rsi_values candles [index - STOCH_PERIOD + 1 .. index] = Some rs \<and> rs \<noteq> [] \<and>
              (Max (set rs) = Min (set rs) \<longrightarrow> calculateStochRSI candles index = Some (Fin 0))"
proof -
  from assms(2) have "\<forall>i\<in>set [index - STOCH_PERIOD + 1 .. index]. i < int (length candles)" by auto
  from rsi_values_Some[OF this] obtain rs where
    rs: "rsi_values candles [index - STOCH_PERIOD + 1 .. index] = Some rs" by blast
  from calculateStochRSI_eq[OF assms(1) rs] rs show ?thesis by auto
qed

lemma flat_bars_at:
  "0 \<le> i \<Longrightarrow> i < int n \<Longrightarrow> candle_at (flat_bars n) i = Some (flat_bar i)"
  by (simp add: candle_at_def flat_bars_def)

section \<open>The upthrust is evaluated before the tweezers top\<close>

lemma detect_rules_upthrust:
  assumes "high cur - low cur \<noteq> 0" and "bb = Some b" and "\<not> jlt stoch (Fin 20)"
    and "upperWick_of cur > body_of cur * 3.0" and "jgt stoch (Fin 80)"
    and "jgt (jdiv (Fin (volume cur)) (Fin (foldl (\<lambda>sum c. sum + volume c) 0 recent / 50))) (Fin 3)"
    and "jgt (Fin (high cur)) (Math_max (map high recent))"
    and "high cur > upper b" and "close next < high cur"
  shows "detect_rules cur prev prev2 next stoch bb recent =
         \<lparr> type = INSTITUTIONAL_UPTHRUST, stochRsi = stoch,
           score = jmin (Fin 95)
             (jadd (jadd (jadd (Fin 60)
                (jmin (Fin 20) (jmul (jsub (jdiv (Fin (volume cur))
                     (Fin (foldl (\<lambda>sum c. sum + volume c) 0 recent / 50))) (Fin 2)) (Fin 10))))
                (Fin 10)) (Fin (if jgt stoch (Fin 85) then 10 else 0))) \<rparr>"
  using assms unfolding detect_rules_def Let_def body_of_def upperWick_of_def of_int_numeral
  by (simp del: jdiv.simps)

lemma tweezer_bars_bb:
  "calculateBollingerBands (tweezer_bars h v) 50 =
     Some \<lparr> middle = 1999411 / 20, upper = 1999411 / 20 + 2 * sqrt (29459 / 400),
            lower = 1999411 / 20 - 2 * sqrt (29459 / 400) \<rparr>"
  by (simp add: calculateBollingerBands_def slice_def tweezer_bars_def take_map drop_map
      tweezer_bar_def bar_def tweezer_close_def power2_eq_square Let_def)

lemma sqrt_29459_400: "sqrt (29459 / 400) \<le> 9"
  by (rule real_le_lsqrt) simp_all

text \<open>
  The upthrust is evaluated before the tweezers top. With the high of bar 50 at 99994,
  strictly above the recent high 99992 and the upper band, and four times the average
  volume, the highs match within 0.00005 and the bar is an INSTITUTIONAL_UPTHRUST.
\<close>

lemma tweezers_top_preempted_by_upthrust:
  "jlt (highsDiff_of (tweezer_bars 99994 400) 50) (Fin 0.00005) \<and>
   jge (Fin (high (tweezer_bars 99994 400 ! 50))) (recentHigh_of (tweezer_bars 99994 400) 50) \<and>
   upthrust_conditions (tweezer_bars 99994 400) 50 \<and>
   detectSignal (tweezer_bars 99994 400) 50 =
     Some \<lparr> type = INSTITUTIONAL_UPTHRUST, stochRsi = Fin 92, score = Fin 95 \<rparr>"
proof -
  let ?cs = "tweezer_bars 99994 400"
  let ?b = "\<lparr> middle = 1999411 / 20, upper = 1999411 / 20 + 2 * sqrt (29459 / 400),
              lower = 1999411 / 20 - 2 * sqrt (29459 / 400) \<rparr>"
  have c50: "?cs ! 50 = bar 50 99977 99994 99900 99974 400"
    and c49: "?cs ! 49 = bar 49 99976 99992 99900 99977 100"
    and c51: "?cs ! 51 = bar 51 99974 99990 99900 99974 100"
    by (simp_all add: tweezer_bars_nth tweezer_bar_def tweezer_close_def)
  have hd: "jlt (highsDiff_of ?cs 50) (Fin 0.00005)"
    by (simp add: highsDiff_of_def c50 c49 bar_def)
  have rh: "jge (Fin (high (?cs ! 50))) (recentHigh_of ?cs 50)"
    by (simp add: tweezer_bars_recentHigh c50 bar_def jge_def)
  have up: "upthrust_conditions ?cs 50"
    using sqrt_29459_400
    by (simp add: upthrust_conditions_def tweezer_bars_bb tweezer_bars_stoch tweezer_bars_volMult
        tweezer_bars_recentHigh c50 c51 bar_def upperWick_of_def body_of_def jgt_def)
  have h1: "RECENT_LOOKBACK \<le> (50::int)" by simp
  have h2: "(50::int) \<le> int (length ?cs) - 2" by (simp add: tweezer_bars_length)
  have vm: "jdiv (Fin (volume (?cs ! 50)))
              (Fin (foldl (\<lambda>sum c. sum + volume c) 0 (recentSlices_of ?cs 50) / 50)) = Fin 4"
    using tweezer_bars_volMult[of 99994 400] by (simp add: volMult_of_def avgVol_of_def)
  from detectSignal_in_range[OF h1 h2] have
    "detectSignal ?cs 50 =
       Some (detect_rules (?cs ! 50) (?cs ! 49) (?cs ! 48) (?cs ! 51) (Fin 92) (Some ?b)
               (recentSlices_of ?cs 50))"
    by (simp add: tweezer_bars_stoch tweezer_bars_bb recentSlices_of_def)
  also have "detect_rules (?cs ! 50) (?cs ! 49) (?cs ! 48) (?cs ! 51) (Fin 92) (Some ?b)
               (recentSlices_of ?cs 50)
        = \<lparr> type = INSTITUTIONAL_UPTHRUST, stochRsi = Fin 92,
            score = jmin (Fin 95)
             (jadd (jadd (jadd (Fin 60)
                (jmin (Fin 20) (jmul (jsub (jdiv (Fin (volume (?cs ! 50)))
                     (Fin (foldl (\<lambda>sum c. sum + volume c) 0 (recentSlices_of ?cs 50) / 50)))
                     (Fin 2)) (Fin 10))))
                (Fin 10)) (Fin (if jgt (Fin 92) (Fin 85) then 10 else 0))) \<rparr>"
  proof (rule detect_rules_upthrust[OF _ refl])
    show "high (?cs ! 50) - low (?cs ! 50) \<noteq> 0" by (simp add: c50 bar_def)
    show "\<not> jlt (Fin 92) (Fin 20)" by simp
    show "body_of (?cs ! 50) * 3.0 < upperWick_of (?cs ! 50)"
      by (simp add: c50 bar_def upperWick_of_def body_of_def)
    show "jgt (Fin 92) (Fin 80)" by (simp add: jgt_def)
    show "jgt (jdiv (Fin (volume (?cs ! 50)))
            (Fin (foldl (\<lambda>sum c. sum + volume c) 0 (recentSlices_of ?cs 50) / 50))) (Fin 3)"
      unfolding vm by (simp add: jgt_def)
    show "jgt (Fin (high (?cs ! 50))) (Math_max (map high (recentSlices_of ?cs 50)))"
      using tweezer_bars_recentHigh[of 99994 400] by (simp add: recentHigh_of_def c50 bar_def jgt_def)
    show "upper ?b < high (?cs ! 50)" using sqrt_29459_400 by (simp add: c50 bar_def)
    show "close (?cs ! 51) < high (?cs ! 50)" by (simp add: c50 c51 bar_def)
  qed
  also have "\<dots> = \<lparr> type = INSTITUTIONAL_UPTHRUST, stochRsi = Fin 92, score = Fin 95 \<rparr>"
    unfolding vm by (simp add: jsub_def jgt_def)
  finally show ?thesis using hd rh up by simp
qed

section \<open>Claims\<close>

subsection \<open>C1\<close>

text \<open>
  Claim C1, as amended. For every bar sequence and every index at which detectSignal
  returns a pattern kind other than NONE, the score is a finite number within [0, 100];
  it is an integer for every kind but INSTITUTIONAL_SPRING, INSTITUTIONAL_UPTHRUST,
  SUDDEN_REVERSAL_UP and SUDDEN_REVERSAL_DOWN, whose scores add a multiple of the volume
  ratio, \<open>min 20 ((volMult - 2) * 10)\<close> or \<open>min 25 ((volMult - 1) * 15)\<close>, that nothing
  rounds.
\<close>

theorem detectSignal_score_within_0_100:
  assumes "detectSignal candles index = Some r" and "type r \<noteq> NONE"
  shows "\<exists>s. score r = Fin s \<and> 0 \<le> s \<and> s \<le> 100 \<and>
           (type r \<noteq> INSTITUTIONAL_SPRING \<and> type r \<noteq> INSTITUTIONAL_UPTHRUST \<and>
            type r \<noteq> SUDDEN_REVERSAL_UP \<and> type r \<noteq> SUDDEN_REVERSAL_DOWN \<longrightarrow> s \<in> \<int>)"
proof -
  from detectSignal_hit_in_range[OF assms] have
    "RECENT_LOOKBACK \<le> index" "index \<le> int (length candles) - 2" by simp_all
  from detectSignal_in_range[OF this] obtain s where
    "detectSignal candles index =
       Some (detect_rules (candles ! nat index) (candles ! nat (index - 1))
           (candles ! nat (index - 2)) (candles ! nat (index + 1)) (Fin s)
           (calculateBollingerBands candles index) (slice candles (index - RECENT_LOOKBACK) index))"
    by blast
  with assms(1) have
    "r = detect_rules (candles ! nat index) (candles ! nat (index - 1))
           (candles ! nat (index - 2)) (candles ! nat (index + 1)) (Fin s)
           (calculateBollingerBands candles index) (slice candles (index - RECENT_LOOKBACK) index)"
    by simp
  then have "score_ok r" by (simp only: detect_rules_score)
  then show ?thesis unfolding score_ok_def .
qed

theorem detectSignal_score_within_0_100_witness:
  "detectSignal (spring_bars 325) 50 =
     Some \<lparr> type = INSTITUTIONAL_SPRING, stochRsi = Fin 10, score = Fin (185 / 2) \<rparr> \<and>
   INSTITUTIONAL_SPRING \<noteq> NONE \<and>
   (\<exists>s. Fin (185 / 2) = Fin s \<and> 0 \<le> s \<and> s \<le> 100)"
proof -
  have d: "detectSignal (spring_bars 325) 50 =
     Some \<lparr> type = INSTITUTIONAL_SPRING, stochRsi = Fin 10, score = Fin (185 / 2) \<rparr>"
    using spring_bars_detect[of 325] by simp
  have n: "type \<lparr> type = INSTITUTIONAL_SPRING, stochRsi = Fin 10, score = Fin (185 / 2) \<rparr> \<noteq> NONE"
    by simp
  from detectSignal_score_within_0_100[OF d n] have
    "\<exists>s. Fin (185 / 2) = Fin s \<and> 0 \<le> s \<and> s \<le> 100" by simp
  with d show ?thesis by simp
qed

text \<open>
  Claim C1 as stated fails: the score need not be an integer. With volume 325 on bar 50
  (3.25 times the average 100) the spring scores \<open>60 + 12.5 + 10 + 10 = 92.5\<close>.
\<close>

theorem detectSignal_score_not_integral:
  "detectSignal (spring_bars 325) 50 =
     Some \<lparr> type = INSTITUTIONAL_SPRING, stochRsi = Fin 10, score = Fin (185 / 2) \<rparr> \<and>
   (185 / 2 :: real) \<notin> \<int>"
  using spring_bars_detect[of 325] half_185_not_int by simp

subsection \<open>C2\<close>




subsection \<open>C3\<close>

text \<open>
  Claim C3 (scenario C), as amended. At an in-range index, for a well-formed bar (high
  not below open and close, low not above them) whose high matches the previous bar's
  high with relative difference below 0.00005, the previous bar bullish and the bar
  itself bearish, with Stochastic-RSI 92, its high at or above the 50-bar recent high,
  and the conditions of the institutional upthrust (rule 2) not all satisfied (they are
  not when the high ties the recent high), detectSignal returns TWEEZERS_TOP with score
  \<open>50 + 15 + volumeBonus + 10\<close>, the bonus being 15 when the volume exceeds 1.5 times
  the 50-bar average volume and 0 otherwise.
\<close>

theorem tweezers_top_scenario:
  assumes "RECENT_LOOKBACK \<le> index" and "index \<le> int (length candles) - 2"
    and "max (open (candles ! nat index)) (close (candles ! nat index)) \<le> high (candles ! nat index)"
    and "low (candles ! nat index) \<le> min (open (candles ! nat index)) (close (candles ! nat index))"
    and "jlt (highsDiff_of candles index) (Fin 0.00005)"
    and "close (candles ! nat (index - 1)) > open (candles ! nat (index - 1))"
    and "close (candles ! nat index) < open (candles ! nat index)"
    and "calculateStochRSI candles index = Some (Fin 92)"
    and "jge (Fin (high (candles ! nat index))) (recentHigh_of candles index)"
    and "\<not> upthrust_conditions candles index"
  shows "detectSignal candles index =
         Some \<lparr> type = TWEEZERS_TOP, stochRsi = Fin 92,
                score = Fin (50 + 15
                  + (if volume (candles ! nat index) > 1.5 * avgVol_of candles index then 15 else 0)
                  + 10) \<rparr>"
proof -
  from assms(5) have "jlt (highsDiff_of candles index) (Fin 0.0001)"
    by (rule jlt_Fin_trans) simp
  from detectSignal_tweezers_top[OF assms(1-4) this assms(6-10)] assms(5)
  show ?thesis by simp
qed

theorem tweezers_top_scenario_witness:
  "length (tweezer_bars 99992 100) = 52 \<and>
   high (tweezer_bars 99992 100 ! 50) = 99992 \<and> open (tweezer_bars 99992 100 ! 50) = 99977 \<and>
   close (tweezer_bars 99992 100 ! 50) = 99974 \<and> low (tweezer_bars 99992 100 ! 50) = 99900 \<and>
   highsDiff_of (tweezer_bars 99992 100) 50 = Fin 0 \<and>
   close (tweezer_bars 99992 100 ! 49) > open (tweezer_bars 99992 100 ! 49) \<and>
   calculateStochRSI (tweezer_bars 99992 100) 50 = Some (Fin 92) \<and>
   recentHigh_of (tweezer_bars 99992 100) 50 = Fin 99992 \<and>
   \<not> upthrust_conditions (tweezer_bars 99992 100) 50 \<and>
   avgVol_of (tweezer_bars 99992 100) 50 = 100 \<and> volume (tweezer_bars 99992 100 ! 50) = 100 \<and>
   detectSignal (tweezer_bars 99992 100) 50 =
     Some \<lparr> type = TWEEZERS_TOP, stochRsi = Fin 92, score = Fin 75 \<rparr>"
proof -
  let ?cs = "tweezer_bars 99992 100"
  have c50: "?cs ! 50 = bar 50 99977 99992 99900 99974 100"
    and c49: "?cs ! 49 = bar 49 99976 99992 99900 99977 100"
    by (simp_all add: tweezer_bars_nth tweezer_bar_def tweezer_close_def)
  have hd: "highsDiff_of ?cs 50 = Fin 0" by (simp add: highsDiff_of_def c50 c49 bar_def)
  have h1: "RECENT_LOOKBACK \<le> (50::int)" by simp
  have h2: "(50::int) \<le> int (length ?cs) - 2" by (simp add: tweezer_bars_length)
  have h3: "max (open (?cs ! nat 50)) (close (?cs ! nat 50)) \<le> high (?cs ! nat 50)"
    by (simp add: c50 bar_def)
  have h4: "low (?cs ! nat 50) \<le> min (open (?cs ! nat 50)) (close (?cs ! nat 50))"
    by (simp add: c50 bar_def)
  have h5: "jlt (highsDiff_of ?cs 50) (Fin 0.00005)" by (simp add: hd)
  have h6: "close (?cs ! nat (50 - 1)) > open (?cs ! nat (50 - 1))" by (simp add: c49 bar_def)
  have h7: "close (?cs ! nat 50) < open (?cs ! nat 50)" by (simp add: c50 bar_def)
  have h8: "calculateStochRSI ?cs 50 = Some (Fin 92)" by (rule tweezer_bars_stoch)
  have h9: "jge (Fin (high (?cs ! nat 50))) (recentHigh_of ?cs 50)"
    by (simp add: tweezer_bars_recentHigh c50 bar_def jge_def)
  have h10: "\<not> upthrust_conditions ?cs 50" by (rule tweezer_bars_not_upthrust) simp
  from tweezers_top_scenario[OF h1 h2 h3 h4 h5 h6 h7 h8 h9 h10]
  have "detectSignal ?cs 50 = Some \<lparr> type = TWEEZERS_TOP, stochRsi = Fin 92, score = Fin 75 \<rparr>"
    by (simp add: tweezer_bars_avgVol c50 bar_def)
  with hd h6 h8 h10 show ?thesis
    by (simp add: tweezer_bars_length tweezer_bars_recentHigh tweezer_bars_avgVol c50 c49 bar_def)
qed

text \<open>
  Claim C3 as stated fails: a relative difference of the highs below 0.0001 does not
  earn the last 10 points, only one below 0.00005 does. With the high of bar 50 at
  100000 against 99992 on bar 49 (relative difference 0.00008) every hypothesis of the
  claim holds, the volume bonus is 0, and the score is \<open>50 + 15 + 0 + 0 = 65\<close>, not 75.
\<close>

theorem tweezers_top_scenario_without_bonus:
  "highsDiff_of (tweezer_bars 100000 100) 50 = Fin (8 / 100000) \<and>
   jlt (highsDiff_of (tweezer_bars 100000 100) 50) (Fin 0.0001) \<and>
   close (tweezer_bars 100000 100 ! 49) > open (tweezer_bars 100000 100 ! 49) \<and>
   close (tweezer_bars 100000 100 ! 50) < open (tweezer_bars 100000 100 ! 50) \<and>
   calculateStochRSI (tweezer_bars 100000 100) 50 = Some (Fin 92) \<and>
   jge (Fin (high (tweezer_bars 100000 100 ! 50))) (recentHigh_of (tweezer_bars 100000 100) 50) \<and>
   detectSignal (tweezer_bars 100000 100) 50 =
     Some \<lparr> type = TWEEZERS_TOP, stochRsi = Fin 92, score = Fin 65 \<rparr> \<and>
   (65 :: real) \<noteq> 50 + 15 + (if volume (tweezer_bars 100000 100 ! 50)
                                    > 1.5 * avgVol_of (tweezer_bars 100000 100) 50 then 15 else 0) + 10"
proof -
  let ?cs = "tweezer_bars 100000 100"
  have c50: "?cs ! 50 = bar 50 99977 100000 99900 99974 100"
    and c49: "?cs ! 49 = bar 49 99976 99992 99900 99977 100"
    by (simp_all add: tweezer_bars_nth tweezer_bar_def tweezer_close_def)
  have hd: "highsDiff_of ?cs 50 = Fin (8 / 100000)"
    by (simp add: highsDiff_of_def c50 c49 bar_def)
  have h1: "RECENT_LOOKBACK \<le> (50::int)" by simp
  have h2: "(50::int) \<le> int (length ?cs) - 2" by (simp add: tweezer_bars_length)
  have h3: "max (open (?cs ! nat 50)) (close (?cs ! nat 50)) \<le> high (?cs ! nat 50)"
    by (simp add: c50 bar_def)
  have h4: "low (?cs ! nat 50) \<le> min (open (?cs ! nat 50)) (close (?cs ! nat 50))"
    by (simp add: c50 bar_def)
  have h5: "jlt (highsDiff_of ?cs 50) (Fin 0.0001)" by (simp add: hd)
  have h6: "close (?cs ! nat (50 - 1)) > open (?cs ! nat (50 - 1))" by (simp add: c49 bar_def)
  have h7: "close (?cs ! nat 50) < open (?cs ! nat 50)" by (simp add: c50 bar_def)
  have h8: "calculateStochRSI ?cs 50 = Some (Fin 92)" by (rule tweezer_bars_stoch)
  have h9: "jge (Fin (high (?cs ! nat 50))) (recentHigh_of ?cs 50)"
    by (simp add: tweezer_bars_recentHigh c50 bar_def jge_def)
  have h10: "\<not> upthrust_conditions ?cs 50" by (rule tweezer_bars_not_upthrust) simp
  from detectSignal_tweezers_top[OF h1 h2 h3 h4 h5 h6 h7 h8 h9 h10]
  have "detectSignal ?cs 50 = Some \<lparr> type = TWEEZERS_TOP, stochRsi = Fin 92, score = Fin 65 \<rparr>"
    by (simp add: tweezer_bars_avgVol c50 bar_def hd)
  with hd h5 h6 h7 h8 h9 show ?thesis
    by (simp add: tweezer_bars_avgVol c50 c49 bar_def)
qed

subsection \<open>C4\<close>

text \<open>
  Claim C4. At an in-range index where the conditions of the institutional spring
  (rule 1) and of the doji (rule 11) both hold, detectSignal returns
  INSTITUTIONAL_SPRING: the first rule wins. And every index yields at most one signal:
  what scanForSignals returns is, in index order, what each index from 25 to
  \<open>length - 2\<close> contributes, which is one signal or none.
\<close>

theorem spring_wins_over_doji:
  assumes "RECENT_LOOKBACK \<le> index" and "index \<le> int (length candles) - 2"
    and "spring_conditions candles index" and "doji_conditions candles index"
  shows "(\<exists>r. detectSignal candles index = Some r \<and> type r = INSTITUTIONAL_SPRING) \<and>
         scanForSignals candles =
           Some (concat (map (signals_at candles) [25 .. int (length candles) - 2])) \<and>
         (\<forall>i. length (signals_at candles i) \<le> 1)"
proof -
  let ?c = "candles ! nat index"
  from detectSignal_in_range[OF assms(1,2)] obtain s where
    st: "calculateStochRSI candles index = Some (Fin s)" and
    ds: "detectSignal candles index =
       Some (detect_rules ?c (candles ! nat (index - 1)) (candles ! nat (index - 2))
               (candles ! nat (index + 1)) (Fin s) (calculateBollingerBands candles index)
               (recentSlices_of candles index))"
    by (auto simp: recentSlices_of_def)
  from assms(3) st obtain b where
    bb: "calculateBollingerBands candles index = Some b" and
    sp: "lowerWick_of ?c > body_of ?c * 3.0" "jlt (Fin s) (Fin 20)"
        "jgt (volMult_of candles index) (Fin 3)"
        "jlt (Fin (low ?c)) (recentLow_of candles index)"
        "low ?c < lower b" "close (candles ! nat (index + 1)) > low ?c"
    by (auto simp: spring_conditions_def Let_def split: option.splits)
  have "0 < body_of ?c" by (simp add: body_of_def)
  with assms(4) have rng: "high ?c - low ?c \<noteq> 0"
    by (auto simp: doji_conditions_def Let_def)
  have "type (detect_rules ?c (candles ! nat (index - 1)) (candles ! nat (index - 2))
               (candles ! nat (index + 1)) (Fin s) (calculateBollingerBands candles index)
               (recentSlices_of candles index)) = INSTITUTIONAL_SPRING"
    using sp by (subst detect_rules_spring[OF rng bb])
      (simp_all add: volMult_of_def avgVol_of_def recentLow_of_def del: jdiv.simps)
  with ds have "\<exists>r. detectSignal candles index = Some r \<and> type r = INSTITUTIONAL_SPRING"
    by simp
  moreover have "scanForSignals candles =
           Some (concat (map (signals_at candles) [25 .. int (length candles) - 2]))"
    by (simp add: scanForSignals_def scan_loop_concat)
  ultimately show ?thesis using signals_at_length by blast
qed

theorem spring_wins_over_doji_witness:
  "spring_conditions (spring_bars 400) 50 \<and> doji_conditions (spring_bars 400) 50 \<and>
   (\<exists>r. detectSignal (spring_bars 400) 50 = Some r \<and> type r = INSTITUTIONAL_SPRING) \<and>
   scanForSignals (spring_bars 400) = Some (concat (map (signals_at (spring_bars 400)) [25 .. 50]))"
proof -
  let ?cs = "spring_bars 400"
  have c50: "?cs ! 50 = bar 50 85 86 50 85 400" and c51: "?cs ! 51 = bar 51 85 86 84 85 100"
    by (simp_all add: spring_bars_nth spring_bar_def spring_close_def)
  have h1: "RECENT_LOOKBACK \<le> (50::int)" by simp
  have h2: "(50::int) \<le> int (length ?cs) - 2" by (simp add: spring_bars_length)
  have h3: "spring_conditions ?cs 50"
    using sqrt_21579_100
    by (simp add: spring_conditions_def spring_bars_bb spring_bars_stoch spring_bars_volMult
        spring_bars_recentLow c50 c51 bar_def lowerWick_of_def body_of_def jgt_def)
  have h4: "doji_conditions ?cs 50"
    by (simp add: doji_conditions_def spring_bars_recentLow c50 bar_def body_of_def)
  from spring_wins_over_doji[OF h1 h2 h3 h4] h3 h4 show ?thesis
    by (simp add: spring_bars_length)
qed

subsection \<open>C5\<close>

text \<open>
  Claim C5. For every bar sequence and every index below its length, the RSI function
  and the Stochastic-RSI function both return (they do not raise), and the value is
  within [0, 100]. The bars need not be valid and the index may be negative: RSI is
  \<open>100 * gains / (gains + losses)\<close> of two non-negative sums, and Stochastic-RSI places
  the last RSI value between the minimum and the maximum of its window.
\<close>

theorem rsi_and_stoch_rsi_within_0_100:
  assumes "index < int (length candles)"
  shows "(\<exists>r. calculateRSIValue candles index = Some r \<and> 0 \<le> r \<and> r \<le> 100) \<and>
         (\<exists>s. calculateStochRSI candles index = Some (Fin s) \<and> 0 \<le> s \<and> s \<le> 100)"
proof -
  from calculateRSIValue_Some[OF assms] obtain r where r: "calculateRSIValue candles index = Some r" ..
  from calculateRSIValue_range[OF r] r have
    "\<exists>r. calculateRSIValue candles index = Some r \<and> 0 \<le> r \<and> r \<le> 100" by blast
  with calculateStochRSI_Some[OF assms] show ?thesis by blast
qed

theorem rsi_and_stoch_rsi_within_0_100_witness:
  "(59::int) < int (length (flat_bars 60)) \<and>
   (\<exists>r. calculateRSIValue (flat_bars 60) 59 = Some r \<and> 0 \<le> r \<and> r \<le> 100) \<and>
   (\<exists>s. calculateStochRSI (flat_bars 60) 59 = Some (Fin s) \<and> 0 \<le> s \<and> s \<le> 100)"
proof -
  have h: "(59::int) < int (length (flat_bars 60))" by (simp add: flat_bars_def)
  from rsi_and_stoch_rsi_within_0_100[OF h] h show ?thesis by blast
qed

subsection \<open>C6\<close>

text \<open>
  Claim C6. For every bar sequence of length L and every index i with
  \<open>i < RECENT_LOOKBACK\<close> (50) or \<open>i > L - 2\<close>, detectSignal returns the no-pattern
  result: kind NONE, score 0 (and the neutral Stochastic-RSI 50).
\<close>

theorem detectSignal_outside_range:
  assumes "index < RECENT_LOOKBACK \<or> index > int (length candles) - 2"
  shows "detectSignal candles index = Some \<lparr> type = NONE, stochRsi = Fin 50, score = Fin 0 \<rparr>"
  using assms by (rule detectSignal_guard)

theorem detectSignal_outside_range_witness:
  "((49::int) < RECENT_LOOKBACK \<or> 49 > int (length (flat_bars 60)) - 2) \<and>
   detectSignal (flat_bars 60) 49 = Some \<lparr> type = NONE, stochRsi = Fin 50, score = Fin 0 \<rparr> \<and>
   ((59::int) < RECENT_LOOKBACK \<or> 59 > int (length (flat_bars 60)) - 2) \<and>
   detectSignal (flat_bars 60) 59 = Some \<lparr> type = NONE, stochRsi = Fin 50, score = Fin 0 \<rparr>"
proof -
  have h1: "(49::int) < RECENT_LOOKBACK \<or> 49 > int (length (flat_bars 60)) - 2" by simp
  have h2: "(59::int) < RECENT_LOOKBACK \<or> 59 > int (length (flat_bars 60)) - 2"
    by (simp add: flat_bars_def)
  from detectSignal_outside_range[OF h1] detectSignal_outside_range[OF h2] h1 h2
  show ?thesis by blast
qed

subsection \<open>C7\<close>

text \<open>
  Claim C7. For every bar sequence of length strictly less than 52, the empty one
  included, scanForSignals returns the empty signal sequence and does not raise.
\<close>

theorem scanForSignals_short_is_empty:
  assumes "length candles < 52"
  shows "scanForSignals candles = Some []"
  using assms by (rule scan_short)

theorem scanForSignals_short_is_empty_witness:
  "length ([] :: Candle list) < 52 \<and> scanForSignals [] = Some [] \<and>
   length (flat_bars 51) < 52 \<and> scanForSignals (flat_bars 51) = Some []"
proof -
  have h1: "length ([] :: Candle list) < 52" by simp
  have h2: "length (flat_bars 51) < 52" by (simp add: flat_bars_def)
  from scanForSignals_short_is_empty[OF h1] scanForSignals_short_is_empty[OF h2] h1 h2
  show ?thesis by blast
qed

subsection \<open>C8\<close>

text \<open>
  Claim C8 (scenario B). At an in-range index, for a bar whose high is not below its
  open and close (as section 3 requires of every bar), whose low is below the 50-bar
  recent low and below the Bollinger lower band, whose lower wick exceeds 3 times its
  body (the body of section 4.2, at least 0.0001), whose volume multiple (volume over
  the 50-bar average volume) is 4, whose Stochastic-RSI is 10 and whose following bar
  closes above its low, detectSignal returns INSTITUTIONAL_SPRING with score
  \<open>min 95 (60 + 20 + 10 + 10) = 95\<close>.
\<close>

theorem spring_scenario_scores_95:
  assumes "RECENT_LOOKBACK \<le> index" and "index \<le> int (length candles) - 2"
    and "max (open (candles ! nat index)) (close (candles ! nat index)) \<le> high (candles ! nat index)"
    and "jlt (Fin (low (candles ! nat index))) (recentLow_of candles index)"
    and "calculateBollingerBands candles index = Some b"
    and "low (candles ! nat index) < lower b"
    and "lowerWick_of (candles ! nat index) > 3 * body_of (candles ! nat index)"
    and "volMult_of candles index = Fin 4"
    and "calculateStochRSI candles index = Some (Fin 10)"
    and "close (candles ! nat (index + 1)) > low (candles ! nat index)"
  shows "detectSignal candles index =
         Some \<lparr> type = INSTITUTIONAL_SPRING, stochRsi = Fin 10, score = Fin 95 \<rparr>"
proof -
  let ?c = "candles ! nat index"
  from detectSignal_in_range[OF assms(1,2)] assms(9) have ds:
    "detectSignal candles index =
       Some (detect_rules ?c (candles ! nat (index - 1)) (candles ! nat (index - 2))
               (candles ! nat (index + 1)) (Fin 10) (calculateBollingerBands candles index)
               (recentSlices_of candles index))"
    by (auto simp: recentSlices_of_def)
  have "0 < body_of ?c" by (simp add: body_of_def)
  with assms(7) have "low ?c < min (open ?c) (close ?c)" unfolding lowerWick_of_def by linarith
  with assms(3) have rng: "high ?c - low ?c \<noteq> 0" by simp
  have vm: "jdiv (Fin (volume ?c))
              (Fin (foldl (\<lambda>sum c. sum + volume c) 0 (recentSlices_of candles index) / 50)) = Fin 4"
    using assms(8) by (simp add: volMult_of_def avgVol_of_def)
  have "detect_rules ?c (candles ! nat (index - 1)) (candles ! nat (index - 2))
               (candles ! nat (index + 1)) (Fin 10) (calculateBollingerBands candles index)
               (recentSlices_of candles index)
        = \<lparr> type = INSTITUTIONAL_SPRING, stochRsi = Fin 10,
            score = jmin (Fin 95)
             (jadd (jadd (jadd (Fin 60)
                (jmin (Fin 20) (jmul (jsub (jdiv (Fin (volume ?c))
                     (Fin (foldl (\<lambda>sum c. sum + volume c) 0 (recentSlices_of candles index) / 50)))
                     (Fin 2)) (Fin 10))))
                (Fin 10)) (Fin (if jlt (Fin 10) (Fin 15) then 10 else 0))) \<rparr>"
  proof (rule detect_rules_spring[OF rng assms(5)])
    show "body_of ?c * 3.0 < lowerWick_of ?c" using assms(7) by (simp add: mult.commute)
    show "jlt (Fin 10) (Fin 20)" by simp
    show "jgt (jdiv (Fin (volume ?c))
            (Fin (foldl (\<lambda>sum c. sum + volume c) 0 (recentSlices_of candles index) / 50))) (Fin 3)"
      unfolding vm by (simp add: jgt_def)
    show "jlt (Fin (low ?c)) (Math_min (map low (recentSlices_of candles index)))"
      using assms(4) by (simp add: recentLow_of_def)
    show "low ?c < lower b" by (rule assms(6))
    show "low ?c < close (candles ! nat (index + 1))" by (rule assms(10))
  qed
  also have "\<dots> = \<lparr> type = INSTITUTIONAL_SPRING, stochRsi = Fin 10, score = Fin 95 \<rparr>"
    unfolding vm by (simp add: jsub_def)
  finally show ?thesis using ds by simp
qed

theorem spring_scenario_scores_95_witness:
  "(let candles = spring_bars 400; c = candles ! 50 in
      length candles = 52 \<and> max (open c) (close c) \<le> high c \<and>
      recentLow_of candles 50 = Fin 79 \<and> low c = 50 \<and>
      (\<exists>b. calculateBollingerBands candles 50 = Some b \<and> low c < lower b) \<and>
      lowerWick_of c > 3 * body_of c \<and> volMult_of candles 50 = Fin 4 \<and>
      calculateStochRSI candles 50 = Some (Fin 10) \<and> close (candles ! 51) > low c \<and>
      detectSignal candles 50 =
        Some \<lparr> type = INSTITUTIONAL_SPRING, stochRsi = Fin 10, score = Fin 95 \<rparr>)"
proof -
  let ?cs = "spring_bars 400"
  let ?b = "\<lparr> middle = 911 / 10, upper = 911 / 10 + 2 * sqrt (21579 / 100),
              lower = 911 / 10 - 2 * sqrt (21579 / 100) \<rparr>"
  have c50: "?cs ! 50 = bar 50 85 86 50 85 400" and c51: "?cs ! 51 = bar 51 85 86 84 85 100"
    by (simp_all add: spring_bars_nth spring_bar_def spring_close_def)
  have h1: "RECENT_LOOKBACK \<le> (50::int)" by simp
  have h2: "(50::int) \<le> int (length ?cs) - 2" by (simp add: spring_bars_length)
  have h3: "max (open (?cs ! nat 50)) (close (?cs ! nat 50)) \<le> high (?cs ! nat 50)"
    by (simp add: c50 bar_def)
  have h4: "jlt (Fin (low (?cs ! nat 50))) (recentLow_of ?cs 50)"
    by (simp add: c50 bar_def spring_bars_recentLow)
  have h5: "calculateBollingerBands ?cs 50 = Some ?b" by (rule spring_bars_bb)
  have h6: "low (?cs ! nat 50) < lower ?b" using sqrt_21579_100 by (simp add: c50 bar_def)
  have h7: "lowerWick_of (?cs ! nat 50) > 3 * body_of (?cs ! nat 50)"
    by (simp add: c50 bar_def lowerWick_of_def body_of_def)
  have h8: "volMult_of ?cs 50 = Fin 4" by (simp add: spring_bars_volMult)
  have h9: "calculateStochRSI ?cs 50 = Some (Fin 10)" by (rule spring_bars_stoch)
  have h10: "close (?cs ! nat (50 + 1)) > low (?cs ! nat 50)" by (simp add: c50 c51 bar_def)
  from spring_scenario_scores_95[OF h1 h2 h3 h4 h5 h6 h7 h8 h9 h10]
  have "detectSignal ?cs 50 =
        Some \<lparr> type = INSTITUTIONAL_SPRING, stochRsi = Fin 10, score = Fin 95 \<rparr>" .
  moreover have "\<exists>b. calculateBollingerBands ?cs 50 = Some b \<and> low (?cs ! 50) < lower b"
    using h5 h6 by auto
  ultimately show ?thesis
    using h3 h7 h8 h9 h10 by (simp add: Let_def spring_bars_length spring_bars_recentLow c50 c51 bar_def)
qed

subsection \<open>C9\<close>

text \<open>
  Claim C9. The division-by-zero cases are defined branches. For every index from
  \<open>RSI_PERIOD\<close> (where the RSI window begins to exist) up to the last bar, if the
  losses summed over the RSI window are exactly zero then RSI returns 100; and for
  every index from \<open>RSI_PERIOD + STOCH_PERIOD\<close> up to the last bar, the RSI values
  \<open>rs\<close> of the Stochastic-RSI window are computed, and if their maximum and minimum
  are equal then Stochastic-RSI returns 0.
\<close>

theorem zero_loss_and_flat_window_branches:
  assumes "RSI_PERIOD \<le> index" and "index < int (length candles)"
  shows "(window_losses candles index = 0 \<longrightarrow> calculateRSIValue candles index = Some 100) \<and>
         (RSI_PERIOD + STOCH_PERIOD \<le> index \<longrightarrow>
            (\<exists>rs. rsi_values candles [index - STOCH_PERIOD + 1 .. index] = Some rs \<and> rs \<noteq> [] \<and>
                  (Max (set rs) = Min (set rs) \<longrightarrow>
                     calculateStochRSI candles index = Some (Fin 0))))"
  using calculateRSIValue_no_losses[OF assms] calculateStochRSI_flat[OF _ assms(2)] by blast

theorem zero_loss_and_flat_window_branches_witness:
  "RSI_PERIOD \<le> (59::int) \<and> (59::int) < int (length (flat_bars 60)) \<and>
   window_losses (flat_bars 60) 59 = 0 \<and> calculateRSIValue (flat_bars 60) 59 = Some 100 \<and>
   RSI_PERIOD + STOCH_PERIOD \<le> (59::int) \<and>
   rsi_values (flat_bars 60) [59 - STOCH_PERIOD + 1 .. 59] = Some (replicate 14 100) \<and>
   Max (set (replicate 14 (100::real))) = Min (set (replicate 14 100)) \<and>
   calculateStochRSI (flat_bars 60) 59 = Some (Fin 0)"
proof -
  have h1: "RSI_PERIOD \<le> (59::int)" by simp
  have h2: "(59::int) < int (length (flat_bars 60))" by (simp add: flat_bars_def)
  have wl: "window_losses (flat_bars 60) 59 = 0"
    by (simp add: window_losses_def flat_bars_def flat_bar_def)
  have "replicate 14 (100::real) = [100, 100, 100, 100, 100, 100, 100,
                                     100, 100, 100, 100, 100, 100, 100]"
    by (simp add: numeral_eq_Suc)
  then have rv: "rsi_values (flat_bars 60) [59 - STOCH_PERIOD + 1 .. 59] = Some (replicate 14 100)"
    by (simp add: calculateRSIValue_def flat_bars_at flat_bar_def)
  have mm: "Max (set (replicate 14 (100::real))) = Min (set (replicate 14 100))" by simp
  from zero_loss_and_flat_window_branches[OF h1 h2] wl rv mm
  have "calculateRSIValue (flat_bars 60) 59 = Some 100 \<and>
        calculateStochRSI (flat_bars 60) 59 = Some (Fin 0)" by auto
  with h2 wl rv mm show ?thesis by simp
qed

subsection \<open>C10\<close>

text \<open>
  Claim C10. detectSignal never reads outside the sequence: for every bar sequence, the
  empty one included, and every integer index, either the range guard holds and the
  no-pattern result is returned before any bar is read, or every position from
  \<open>index - 50\<close> to \<open>index + 1\<close> holds a bar; in both cases detectSignal returns a
  result (in this model an out-of-bounds read is the only way not to).
\<close>

theorem detectSignal_reads_in_bounds:
  "((index < RECENT_LOOKBACK \<or> index > int (length candles) - 2) \<and>
      detectSignal candles index = Some \<lparr> type = NONE, stochRsi = Fin 50, score = Fin 0 \<rparr>
    \<or> (\<forall>i\<in>{index - RECENT_LOOKBACK .. index + 1}. candle_at candles i \<noteq> None))
   \<and> (\<exists>r. detectSignal candles index = Some r)"
proof (cases "index < RECENT_LOOKBACK \<or> index > int (length candles) - 2")
  case True
  from detectSignal_guard[OF True] True detectSignal_total show ?thesis by blast
next
  case False
  then have "\<forall>i\<in>{index - RECENT_LOOKBACK .. index + 1}. candle_at candles i \<noteq> None"
    by (auto simp: candle_at_def)
  with detectSignal_total show ?thesis by blast
qed

theorem detectSignal_reads_in_bounds_witness:
  "candle_at (flat_bars 60) (58 - RECENT_LOOKBACK) \<noteq> None \<and>
   candle_at (flat_bars 60) (58 + 1) \<noteq> None \<and>
   (\<exists>r. detectSignal (flat_bars 60) 58 = Some r) \<and>
   detectSignal [] (- 3) = Some \<lparr> type = NONE, stochRsi = Fin 50, score = Fin 0 \<rparr>"
proof -
  have "\<not> ((58::int) < RECENT_LOOKBACK \<or> 58 > int (length (flat_bars 60)) - 2)"
    by (simp add: flat_bars_def)
  moreover have "(- 3 :: int) < RECENT_LOOKBACK \<or> - 3 > int (length ([] :: Candle list)) - 2"
    by simp
  moreover have "candle_at [] (- 3) = None" by (simp add: candle_at_def)
  moreover have "(- 3 :: int) \<in> {- 3 - RECENT_LOOKBACK .. - 3 + 1}" by simp
  moreover have "(58 - RECENT_LOOKBACK) \<in> {58 - RECENT_LOOKBACK .. 58 + 1}"
    "(58 + 1 :: int) \<in> {58 - RECENT_LOOKBACK .. 58 + 1}" by simp_all
  ultimately show ?thesis
    using detectSignal_reads_in_bounds[of 58 "flat_bars 60"]
      detectSignal_reads_in_bounds[of "- 3" "[]"]
    by blast
qed

end
